theory Spec2Isabelle
  imports Main "HOL-Library.Word" "HOL-Library.AList"
begin

section \<open>The write-ahead log orchestrator of wal.go\<close>

text \<open>
  The development embeds the WAL orchestrator (file wal.go). The segment layer
  (segment.go) and the option declarations (options.go) are not part of the sources at
  hand; what the orchestrator needs of them is either modelled from the specification
  (marked as such) or taken as a parameter: the record \<open>env\<close> below collects
  the outcomes of the calls that leave wal.go.

  Integers: \<open>uint32\<close> values (segment ids, block numbers, \<open>bytesWrite\<close>, \<open>BlockCache\<close>,
  \<open>BytesPerSync\<close>, \<open>ChunkSize\<close>) are \<open>32 word\<close>, so that \<open>+\<close> wraps as in Go.
  \<open>int64\<close> sizes (\<open>SegmentSize\<close>, \<open>pendingSize\<close>, \<open>Size()\<close>, lengths) are \<open>int\<close>: the
  sums the orchestrator forms over them are bounded by the memory the payloads occupy and
  cannot leave the 64-bit range; the one narrowing conversion, \<open>uint32(SegmentSize)\<close>,
  is written out with \<open>word_of_int\<close>.
\<close>

subsection \<open>Data\<close>

type_synonym u32 = "32 word"
type_synonym SegSerialID = u32
type_synonym bytes = "8 word list"

datatype error =
    ErrDataSizeTooLarge
  | ErrPendingSizeTooLarge
  | ErrInvalidExtension
  | ErrBlockCacheTooLarge
  | ErrStartPosNil
  | ErrEOF
  | ErrIO nat

text \<open>
  The outcome of a Go function returning \<open>(value, error)\<close>; \<open>Panic\<close> is a run-time panic
  (an index out of range).
\<close>

datatype 'a result = Ok 'a | Err error | Panic

record ChunkPosition =
  SegmentId :: SegSerialID
  BlockNumber :: u32
  ChunkOffset :: int
  ChunkSize :: u32

text \<open>
  Modelled from the spec: the in-memory part of a segment (segment.go),
  \<open>{id, current_block_number, current_block_size}\<close>.
\<close>

record segment =
  seg_id :: SegSerialID
  currentBlockNumber :: u32
  currentBlockSize :: u32

record Options =
  DirPath :: string
  SegmentSize :: int
  BlockCache :: u32
  DiskFileExtension :: string
  DiskFlushSync :: bool
  BytesPerSync :: u32

text \<open>
  The calls the orchestrator makes on segments, in order. The list \<open>calls\<close> of the
  state is a history kept by the model only; it records every call, whatever its outcome.
\<close>

datatype call =
    CallSync SegSerialID
  | CallOpenSegment SegSerialID
  | CallWrite SegSerialID
  | CallWriteAll SegSerialID

text \<open>
  The Go map \<open>olderSegments\<close> is an association list updated with \<open>AList.update\<close>
  (one entry per key, as in a map); \<open>blockCache\<close> keeps the capacity of the cache, and
  \<open>None\<close> is the nil cache.
\<close>

record WAL =
  activeSegment :: segment
  olderSegments :: "(SegSerialID \<times> segment) list"
  options :: Options
  blockCache :: "nat option"
  bytesWrite :: u32
  renameIds :: "SegSerialID list"
  pendingWrites :: "bytes list"
  pendingSize :: int
  calls :: "call list"

subsection \<open>The segment layer, as seen from wal.go\<close>

text \<open>An entry of the directory listing (\<open>os.DirEntry\<close>): its name and whether it is a directory.\<close>

record dirEntry =
  Name :: string
  IsDir :: bool

text \<open>
  Modelled from the spec: what one successful \<open>Next()\<close> of a segment reader
  (segment.go) yields: the payload and its position, and the cursor
  \<open>(block_number, chunk_offset)\<close> the reader has advanced to afterwards.
\<close>

record chunkRead =
  readData :: bytes
  readPosition :: ChunkPosition
  nextBlockNumber :: u32
  nextChunkOffset :: int

text \<open>
  The outcomes of the calls into segment.go and into the file system. A call on a
  segment is answered from the segment's current value.
  \<^item> \<open>sync_outcome s\<close>: the error of \<open>s.Sync()\<close>, if any;
  \<^item> \<open>file_length i\<close>: the length of the file of segment \<open>i\<close> when \<open>openSegmentFile\<close>
    opens or creates it, or the error of opening it;
  \<^item> \<open>write_outcome s data\<close>: the error of \<open>s.Write(data)\<close>, or the block number and
    block size of the segment after the append, with the position returned;
  \<^item> \<open>writeAll_outcome s batch\<close>: the same for \<open>s.writeAll(batch)\<close>;
  \<^item> \<open>mkdirAll_outcome d\<close>: the error of \<open>os.MkdirAll(d)\<close>, if any;
  \<^item> \<open>readDir_outcome d\<close>: the entries \<open>os.ReadDir(d)\<close> lists, or its error;
  \<^item> \<open>stored s\<close>: the chunks a reader of segment \<open>s\<close> returns one after the other, and
    the error that ends them (\<open>ErrEOF\<close> for \<open>io.EOF\<close> at the end of the file, another error
    for a chunk that cannot be read).
\<close>

record env =
  sync_outcome :: "segment \<Rightarrow> error option"
  file_length :: "SegSerialID \<Rightarrow> error + nat"
  write_outcome :: "segment \<Rightarrow> bytes \<Rightarrow> error + (u32 \<times> u32 \<times> ChunkPosition)"
  writeAll_outcome :: "segment \<Rightarrow> bytes list \<Rightarrow> error + (u32 \<times> u32 \<times> ChunkPosition list)"
  mkdirAll_outcome :: "string \<Rightarrow> error option"
  readDir_outcome :: "string \<Rightarrow> error + dirEntry list"
  stored :: "segment \<Rightarrow> chunkRead list \<times> error"

text \<open>Modelled from the spec: the constants \<open>H = 7\<close> and \<open>B = 32 KiB\<close> of segment.go.\<close>

definition chunkHeaderSize :: int where
  "chunkHeaderSize = 7"

definition blockSize :: int where
  "blockSize = 32768"

text \<open>
  Modelled from the spec: \<open>segment.Size()\<close> returns
  \<open>current_block_number * B + current_block_size\<close>.
\<close>

definition Size :: "segment \<Rightarrow> int" where
  "Size s = uint (currentBlockNumber s) * blockSize + uint (currentBlockSize s)"

text \<open>
  Modelled from the spec: \<open>openSegmentFile(dir, ext, id, cache)\<close> opens or creates
  the file of segment \<open>id\<close> and computes the block number and block size from the file
  length (\<open>len / B\<close> and \<open>len mod B\<close>).
\<close>

definition openSegmentFile :: "env \<Rightarrow> SegSerialID \<Rightarrow> error + segment" where
  "openSegmentFile e i =
     (case file_length e i of
        Inl err \<Rightarrow> Inl err
      | Inr len \<Rightarrow>
          Inr \<lparr>seg_id = i,
               currentBlockNumber = word_of_int (int len div blockSize),
               currentBlockSize = word_of_int (int len mod blockSize)\<rparr>)"

text \<open>
  Modelled from the spec: \<open>segment.Write\<close> and \<open>segment.writeAll\<close> update
  \<open>current_block_number\<close> and \<open>current_block_size\<close> and return the position(s); a
  failing append leaves the in-memory offsets unchanged.
\<close>

definition segment_Write :: "env \<Rightarrow> segment \<Rightarrow> bytes \<Rightarrow> error + (segment \<times> ChunkPosition)" where
  "segment_Write e s data =
     (case write_outcome e s data of
        Inl err \<Rightarrow> Inl err
      | Inr (bn, bs, pos) \<Rightarrow>
          Inr (s\<lparr>currentBlockNumber := bn, currentBlockSize := bs\<rparr>, pos))"

definition segment_writeAll ::
  "env \<Rightarrow> segment \<Rightarrow> bytes list \<Rightarrow> error + (segment \<times> ChunkPosition list)" where
  "segment_writeAll e s batch =
     (case writeAll_outcome e s batch of
        Inl err \<Rightarrow> Inl err
      | Inr (bn, bs, ps) \<Rightarrow>
          Inr (s\<lparr>currentBlockNumber := bn, currentBlockSize := bs\<rparr>, ps))"

subsection \<open>Writing\<close>

definition logCall :: "call \<Rightarrow> WAL \<Rightarrow> WAL" where
  "logCall c w = w\<lparr>calls := calls w @ [c]\<rparr>"

definition maxDataWriteSize :: "int \<Rightarrow> int" where
  "maxDataWriteSize n = chunkHeaderSize + n + (n div blockSize + 1) * chunkHeaderSize"

definition isFull :: "WAL \<Rightarrow> int \<Rightarrow> bool" where
  "isFull w delta \<longleftrightarrow>
     Size (activeSegment w) + maxDataWriteSize delta > SegmentSize (options w)"

text \<open>
  \<open>rotateActiveSegment\<close>: the error returned, if any, and the state left behind.
  \<open>bytesWrite\<close> is reset as soon as the sync has succeeded, before the new file is opened.
\<close>

definition rotateActiveSegment :: "env \<Rightarrow> WAL \<Rightarrow> error option \<times> WAL" where
  "rotateActiveSegment e w =
     (let w1 = logCall (CallSync (seg_id (activeSegment w))) w in
      case sync_outcome e (activeSegment w) of
        Some err \<Rightarrow> (Some err, w1)
      | None \<Rightarrow>
          (let w2 = logCall (CallOpenSegment (seg_id (activeSegment w) + 1))
                      (w1\<lparr>bytesWrite := 0\<rparr>) in
           case openSegmentFile e (seg_id (activeSegment w) + 1) of
             Inl err \<Rightarrow> (Some err, w2)
           | Inr s \<Rightarrow>
               (None,
                w2\<lparr>olderSegments :=
                      AList.update (seg_id (activeSegment w)) (activeSegment w) (olderSegments w),
                    activeSegment := s\<rparr>)))"

definition OpenNewActiveSegment :: "env \<Rightarrow> WAL \<Rightarrow> error option \<times> WAL" where
  "OpenNewActiveSegment e w =
     (let w1 = logCall (CallSync (seg_id (activeSegment w))) w in
      case sync_outcome e (activeSegment w) of
        Some err \<Rightarrow> (Some err, w1)
      | None \<Rightarrow>
          (let w2 = logCall (CallOpenSegment (seg_id (activeSegment w) + 1)) w1 in
           case openSegmentFile e (seg_id (activeSegment w) + 1) of
             Inl err \<Rightarrow> (Some err, w2)
           | Inr s \<Rightarrow>
               (None,
                w2\<lparr>olderSegments :=
                      AList.update (seg_id (activeSegment w)) (activeSegment w) (olderSegments w),
                    activeSegment := s\<rparr>)))"

definition ClearPendingWrites :: "WAL \<Rightarrow> WAL" where
  "ClearPendingWrites w = w\<lparr>pendingSize := 0, pendingWrites := []\<rparr>"

definition PendingWrites :: "WAL \<Rightarrow> bytes \<Rightarrow> WAL" where
  "PendingWrites w data =
     w\<lparr>pendingSize := pendingSize w + maxDataWriteSize (int (length data)),
       pendingWrites := pendingWrites w @ [data]\<rparr>"

text \<open>
  The part of \<open>Write\<close> after the append: the counter is advanced by the chunk size
  (wrapping at \<open>2 ^ 32\<close>), and the active segment is synced when \<open>needSync\<close> holds.
\<close>

definition needSync :: "Options \<Rightarrow> u32 \<Rightarrow> bool" where
  "needSync opts counter \<longleftrightarrow>
     (if \<not> DiskFlushSync opts \<and> BytesPerSync opts > 0
      then counter \<ge> BytesPerSync opts
      else DiskFlushSync opts)"

definition syncAfterWrite :: "env \<Rightarrow> WAL \<Rightarrow> ChunkPosition \<Rightarrow> ChunkPosition result \<times> WAL" where
  "syncAfterWrite e w position =
     (let w1 = w\<lparr>bytesWrite := bytesWrite w + ChunkSize position\<rparr> in
      if needSync (options w1) (bytesWrite w1) then
        (let w2 = logCall (CallSync (seg_id (activeSegment w1))) w1 in
         case sync_outcome e (activeSegment w1) of
           Some err \<Rightarrow> (Err err, w2)
         | None \<Rightarrow> (Ok position, w2\<lparr>bytesWrite := 0\<rparr>))
      else (Ok position, w1))"

definition appendActive :: "env \<Rightarrow> WAL \<Rightarrow> bytes \<Rightarrow> ChunkPosition result \<times> WAL" where
  "appendActive e w data =
     (let w1 = logCall (CallWrite (seg_id (activeSegment w))) w in
      case segment_Write e (activeSegment w) data of
        Inl err \<Rightarrow> (Err err, w1)
      | Inr (s, position) \<Rightarrow> syncAfterWrite e (w1\<lparr>activeSegment := s\<rparr>) position)"

definition Write :: "env \<Rightarrow> WAL \<Rightarrow> bytes \<Rightarrow> ChunkPosition result \<times> WAL" where
  "Write e w data =
     (if int (length data) + chunkHeaderSize > SegmentSize (options w)
      then (Err ErrDataSizeTooLarge, w)
      else if isFull w (int (length data)) then
        (case rotateActiveSegment e w of
           (Some err, w1) \<Rightarrow> (Err err, w1)
         | (None, w1) \<Rightarrow> appendActive e w1 data)
      else appendActive e w data)"

definition WriteAll :: "env \<Rightarrow> WAL \<Rightarrow> ChunkPosition list result \<times> WAL" where
  "WriteAll e w =
     (if length (pendingWrites w) = 0 then (Ok [], w)
      else if pendingSize w > SegmentSize (options w)
      then (Err ErrPendingSizeTooLarge, ClearPendingWrites w)
      else
        (case (if Size (activeSegment w) + pendingSize w > SegmentSize (options w)
               then rotateActiveSegment e w else (None, w)) of
           (Some err, w1) \<Rightarrow> (Err err, ClearPendingWrites w1)
         | (None, w1) \<Rightarrow>
             (let w2 = logCall (CallWriteAll (seg_id (activeSegment w1))) w1 in
              case segment_writeAll e (activeSegment w1) (pendingWrites w1) of
                Inl err \<Rightarrow> (Err err, ClearPendingWrites w2)
              | Inr (s, positions) \<Rightarrow>
                  (Ok positions, ClearPendingWrites (w2\<lparr>activeSegment := s\<rparr>)))))"

subsection \<open>Opening\<close>

text \<open>
  \<open>fmt.Sscanf(name, "%d" + ext, &id)\<close> of the Go library, for file names and
  extensions of ASCII characters, the extension holding neither \<open>%\<close> nor white space
  (which a format reads as directives). The verb \<open>%d\<close> skips leading white space (a
  newline is an error), accepts one sign, then needs at least one decimal digit and takes
  all that follow; the value must fit \<open>int\<close> (64 bits). The rest of the format must then
  match the input character by character. Input left over after the format is used up is
  not looked at.
\<close>

definition isSpace :: "char \<Rightarrow> bool" where
  "isSpace c \<longleftrightarrow> (of_char c :: nat) \<in> {9, 11, 12, 13, 32}"

definition isDigit :: "char \<Rightarrow> bool" where
  "isDigit c \<longleftrightarrow> 48 \<le> (of_char c :: nat) \<and> (of_char c :: nat) \<le> 57"

fun SkipSpace :: "string \<Rightarrow> string option" where
  "SkipSpace [] = Some []"
| "SkipSpace (c # cs) =
     (if (of_char c :: nat) = 10 then None
      else if isSpace c then SkipSpace cs
      else Some (c # cs))"

fun decimal :: "int \<Rightarrow> string \<Rightarrow> int" where
  "decimal acc [] = acc"
| "decimal acc (c # cs) = decimal (10 * acc + (of_char c - 48)) cs"

definition acceptSign :: "string \<Rightarrow> bool \<times> string" where
  "acceptSign s =
     (case s of
        [] \<Rightarrow> (False, [])
      | c # cs \<Rightarrow>
          if c = CHR ''-'' then (True, cs)
          else if c = CHR ''+'' then (False, cs)
          else (False, c # cs))"

definition scanInt :: "string \<Rightarrow> (int \<times> string) option" where
  "scanInt input =
     (case SkipSpace input of
        None \<Rightarrow> None
      | Some s \<Rightarrow>
          (let (negative, s1) = acceptSign s;
               tok = takeWhile isDigit s1;
               v = (if negative then - decimal 0 tok else decimal 0 tok)
           in if tok = [] then None
              else if v < - (2 ^ 63) \<or> 2 ^ 63 - 1 < v then None
              else Some (v, dropWhile isDigit s1)))"

definition Sscanf_id :: "string \<Rightarrow> string \<Rightarrow> int option" where
  "Sscanf_id name ext =
     (case scanInt name of
        None \<Rightarrow> None
      | Some (v, rest) \<Rightarrow> if take (length ext) rest = ext then Some v else None)"

text \<open>The loop of \<open>Open\<close> over the directory entries, collecting \<open>segmentIDs\<close>.\<close>

fun segmentIDs :: "string \<Rightarrow> dirEntry list \<Rightarrow> int list" where
  "segmentIDs ext [] = []"
| "segmentIDs ext (entry # entries) =
     (if IsDir entry then segmentIDs ext entries
      else case Sscanf_id (Name entry) ext of
             None \<Rightarrow> segmentIDs ext entries
           | Some i \<Rightarrow> i # segmentIDs ext entries)"

text \<open>
  The loop of \<open>Open\<close> over the sorted ids, for the indices before the last: each segment
  is opened under the id \<open>uint32(segId)\<close> and stored in the map under its own id.
\<close>

fun openOlder ::
  "env \<Rightarrow> int list \<Rightarrow> (SegSerialID \<times> segment) list \<Rightarrow> error + (SegSerialID \<times> segment) list" where
  "openOlder e [] older = Inr older"
| "openOlder e (segId # ids) older =
     (case openSegmentFile e (word_of_int segId) of
        Inl err \<Rightarrow> Inl err
      | Inr s \<Rightarrow> openOlder e ids (AList.update (seg_id s) s older))"

text \<open>The two checks of the options at the head of \<open>Open\<close>.\<close>

definition checkOptions :: "Options \<Rightarrow> error option" where
  "checkOptions opts =
     (if \<not> (take 1 (DiskFileExtension opts) = ''.'') then Some ErrInvalidExtension
      else if BlockCache opts > word_of_int (SegmentSize opts) then Some ErrBlockCacheTooLarge
      else None)"

definition newBlockCache :: "Options \<Rightarrow> nat option" where
  "newBlockCache opts =
     (if BlockCache opts > 0
      then Some (unat (BlockCache opts div 32768
                       + (if BlockCache opts mod 32768 \<noteq> 0 then 1 else 0)))
      else None)"

definition newWAL :: "Options \<Rightarrow> segment \<Rightarrow> (SegSerialID \<times> segment) list \<Rightarrow> WAL" where
  "newWAL opts active older =
     \<lparr>activeSegment = active, olderSegments = older, options = opts,
      blockCache = newBlockCache opts, bytesWrite = 0, renameIds = [],
      pendingWrites = [], pendingSize = 0, calls = []\<rparr>"

text \<open>
  \<open>Open\<close>. The last of the sorted ids (index \<open>len - 1\<close>) becomes the active segment,
  the ids before it go to the map. The history \<open>calls\<close> starts empty.
\<close>

definition Open :: "env \<Rightarrow> Options \<Rightarrow> WAL result" where
  "Open e opts =
     (case checkOptions opts of
        Some err \<Rightarrow> Err err
      | None \<Rightarrow>
     (case mkdirAll_outcome e (DirPath opts) of
        Some err \<Rightarrow> Err err
      | None \<Rightarrow>
     (case readDir_outcome e (DirPath opts) of
        Inl err \<Rightarrow> Err err
      | Inr entries \<Rightarrow>
          (let ids = segmentIDs (DiskFileExtension opts) entries in
           if length ids = 0 then
             (case openSegmentFile e 1 of
                Inl err \<Rightarrow> Err err
              | Inr s \<Rightarrow> Ok (newWAL opts s []))
           else
             (case openOlder e (butlast (sort ids)) [] of
                Inl err \<Rightarrow> Err err
              | Inr older \<Rightarrow>
                  (case openSegmentFile e (word_of_int (last (sort ids))) of
                     Inl err \<Rightarrow> Err err
                   | Inr s \<Rightarrow> Ok (newWAL opts s older)))))))"

subsection \<open>Reading\<close>

text \<open>
  Modelled from the spec: a segment reader (segment.go) is a cursor
  \<open>{segment, block_number, chunk_offset}\<close> starting at \<open>(0, 0)\<close>; \<open>Next()\<close> reads at
  the cursor and advances it, and returns \<open>EOF\<close> past the last chunk. The chunks still to
  come and the error that ends them are \<open>upcoming\<close> and \<open>ending\<close>.
\<close>

record segmentReader =
  reader_segment :: segment
  blockNumber :: u32
  chunkOffset :: int
  upcoming :: "chunkRead list"
  ending :: error

definition segment_NewReader :: "env \<Rightarrow> segment \<Rightarrow> segmentReader" where
  "segment_NewReader e s =
     \<lparr>reader_segment = s, blockNumber = 0, chunkOffset = 0,
      upcoming = fst (stored e s), ending = snd (stored e s)\<rparr>"

definition segmentReader_Next ::
  "segmentReader \<Rightarrow> (error + (bytes \<times> ChunkPosition)) \<times> segmentReader" where
  "segmentReader_Next sr =
     (case upcoming sr of
        [] \<Rightarrow> (Inl (ending sr), sr)
      | c # cs \<Rightarrow>
          (Inr (readData c, readPosition c),
           sr\<lparr>blockNumber := nextBlockNumber c, chunkOffset := nextChunkOffset c,
              upcoming := cs\<rparr>))"

record Reader =
  segmentReaders :: "segmentReader list"
  currentReader :: nat

text \<open>
  \<open>NewReaderWithMax\<close>. The map is walked in the order of the association list (Go leaves
  the order open) and the readers are then sorted by segment id.
\<close>

definition NewReaderWithMax :: "env \<Rightarrow> WAL \<Rightarrow> SegSerialID \<Rightarrow> Reader" where
  "NewReaderWithMax e w segId =
     (let older = map (segment_NewReader e)
                    (filter (\<lambda>s. segId = 0 \<or> seg_id s \<le> segId) (map snd (olderSegments w)));
          active = (if segId = 0 \<or> seg_id (activeSegment w) \<le> segId
                    then [segment_NewReader e (activeSegment w)] else [])
      in \<lparr>segmentReaders = sort_key (\<lambda>sr. seg_id (reader_segment sr)) (older @ active),
          currentReader = 0\<rparr>)"

definition NewReader :: "env \<Rightarrow> WAL \<Rightarrow> Reader" where
  "NewReader e w = NewReaderWithMax e w 0"

text \<open>
  \<open>Reader.Next\<close> returns \<open>(data, position, err)\<close>: the error (\<open>Inl\<close>) or the chunk and
  its position (\<open>Inr\<close>), with the reader as the call leaves it. The index is tested
  against the length before it is used, so the call does not panic.
\<close>

function Next :: "Reader \<Rightarrow> (error + bytes \<times> ChunkPosition) \<times> Reader" where
  "Next r =
     (if currentReader r \<ge> length (segmentReaders r) then (Inl ErrEOF, r)
      else
        (case segmentReader_Next (segmentReaders r ! currentReader r) of
           (Inl err, sr) \<Rightarrow>
             if err = ErrEOF then Next (r\<lparr>currentReader := currentReader r + 1\<rparr>)
             else (Inl err, r)
         | (Inr dp, sr) \<Rightarrow>
             (Inr dp, r\<lparr>segmentReaders := (segmentReaders r)[currentReader r := sr]\<rparr>)))"
  by pat_completeness auto
termination
  by (relation "measure (\<lambda>r. length (segmentReaders r) - currentReader r)") auto

definition SkipCurrentSegment :: "Reader \<Rightarrow> Reader" where
  "SkipCurrentSegment r = r\<lparr>currentReader := currentReader r + 1\<rparr>"

text \<open>Indexing \<open>segmentReaders\<close> at or beyond its length panics.\<close>

definition CurrentSegmentId :: "Reader \<Rightarrow> SegSerialID result" where
  "CurrentSegmentId r =
     (if currentReader r < length (segmentReaders r)
      then Ok (seg_id (reader_segment (segmentReaders r ! currentReader r)))
      else Panic)"

definition CurrentChunkPosition :: "Reader \<Rightarrow> ChunkPosition result" where
  "CurrentChunkPosition r =
     (if currentReader r < length (segmentReaders r)
      then (let reader = segmentReaders r ! currentReader r in
            Ok \<lparr>SegmentId = seg_id (reader_segment reader),
                BlockNumber = blockNumber reader,
                ChunkOffset = chunkOffset reader,
                ChunkSize = 0\<rparr>)
      else Panic)"

text \<open>
  The chunks and segment ends a reader still has before it: the measure by which the
  loops below terminate.
\<close>

definition remaining :: "Reader \<Rightarrow> nat" where
  "remaining r =
     sum_list (map (\<lambda>sr. length (upcoming sr) + 1) (drop (currentReader r) (segmentReaders r)))"

lemma remaining_skip:
  "currentReader r < length (segmentReaders r) \<Longrightarrow>
   remaining (r\<lparr>currentReader := currentReader r + 1\<rparr>) < remaining r"
  by (simp add: remaining_def Cons_nth_drop_Suc [symmetric])

lemma remaining_skip_le:
  "remaining (r\<lparr>currentReader := currentReader r + 1\<rparr>) \<le> remaining r"
  by (cases "currentReader r < length (segmentReaders r)")
     (simp_all add: remaining_def Cons_nth_drop_Suc [symmetric])

lemma remaining_update:
  assumes "currentReader r < length (segmentReaders r)"
    and "length (upcoming sr) < length (upcoming (segmentReaders r ! currentReader r))"
  shows "remaining (r\<lparr>segmentReaders := (segmentReaders r)[currentReader r := sr]\<rparr>) < remaining r"
  using assms
  by (simp add: remaining_def Cons_nth_drop_Suc [symmetric] drop_update_swap)

declare Next.simps [simp del]

lemma Next_at_end:
  "currentReader r \<ge> length (segmentReaders r) \<Longrightarrow> Next r = (Inl ErrEOF, r)"
  by (subst Next.simps) simp

lemma Next_segment_end:
  "\<lbrakk>currentReader r < length (segmentReaders r);
    upcoming (segmentReaders r ! currentReader r) = [];
    ending (segmentReaders r ! currentReader r) = ErrEOF\<rbrakk>
   \<Longrightarrow> Next r = Next (r\<lparr>currentReader := currentReader r + 1\<rparr>)"
  by (subst Next.simps) (simp add: segmentReader_Next_def)

lemma Next_failure:
  "\<lbrakk>currentReader r < length (segmentReaders r);
    upcoming (segmentReaders r ! currentReader r) = [];
    ending (segmentReaders r ! currentReader r) \<noteq> ErrEOF\<rbrakk>
   \<Longrightarrow> Next r = (Inl (ending (segmentReaders r ! currentReader r)), r)"
  by (subst Next.simps) (simp add: segmentReader_Next_def)

lemma Next_chunk:
  "\<lbrakk>currentReader r < length (segmentReaders r);
    upcoming (segmentReaders r ! currentReader r) = c # cs\<rbrakk>
   \<Longrightarrow> Next r =
        (Inr (readData c, readPosition c),
         r\<lparr>segmentReaders := (segmentReaders r)[currentReader r :=
              (segmentReaders r ! currentReader r)\<lparr>blockNumber := nextBlockNumber c,
                 chunkOffset := nextChunkOffset c, upcoming := cs\<rparr>]\<rparr>)"
  by (subst Next.simps) (simp add: segmentReader_Next_def)

lemma Next_induct [case_names at_end segment_end failure chunk]:
  fixes P :: "Reader \<Rightarrow> bool"
  assumes "\<And>r. currentReader r \<ge> length (segmentReaders r) \<Longrightarrow> P r"
    and "\<And>r. \<lbrakk>currentReader r < length (segmentReaders r);
               upcoming (segmentReaders r ! currentReader r) = [];
               ending (segmentReaders r ! currentReader r) = ErrEOF;
               P (r\<lparr>currentReader := currentReader r + 1\<rparr>)\<rbrakk> \<Longrightarrow> P r"
    and "\<And>r. \<lbrakk>currentReader r < length (segmentReaders r);
               upcoming (segmentReaders r ! currentReader r) = [];
               ending (segmentReaders r ! currentReader r) \<noteq> ErrEOF\<rbrakk> \<Longrightarrow> P r"
    and "\<And>r c cs. \<lbrakk>currentReader r < length (segmentReaders r);
               upcoming (segmentReaders r ! currentReader r) = c # cs\<rbrakk> \<Longrightarrow> P r"
  shows "P r"
proof (induction r rule: Next.induct)
  case (1 r)
  show ?case
  proof (cases "currentReader r \<ge> length (segmentReaders r)")
    case True
    then show ?thesis by (rule assms(1))
  next
    case False
    then have lt: "currentReader r < length (segmentReaders r)" by simp
    show ?thesis
    proof (cases "upcoming (segmentReaders r ! currentReader r)")
      case Nil
      show ?thesis
      proof (cases "ending (segmentReaders r ! currentReader r) = ErrEOF")
        case True
        have sn: "segmentReader_Next (segmentReaders r ! currentReader r)
            = (Inl ErrEOF, segmentReaders r ! currentReader r)"
          using Nil True by (simp add: segmentReader_Next_def)
        have "P (r\<lparr>currentReader := currentReader r + 1\<rparr>)"
          by (rule "1.IH" [OF False sn [symmetric] refl refl])
        with lt Nil True show ?thesis by (rule assms(2))
      next
        case False
        with lt Nil show ?thesis by (rule assms(3))
      qed
    next
      case (Cons c cs)
      with lt show ?thesis by (rule assms(4))
    qed
  qed
qed

lemma Next_remaining: "Next r = (Inr x, r') \<Longrightarrow> remaining r' < remaining r"
proof (induction r rule: Next_induct)
  case (at_end r)
  then show ?case by (simp add: Next_at_end)
next
  case (segment_end r)
  then have "remaining r' < remaining (r\<lparr>currentReader := currentReader r + 1\<rparr>)"
    by (simp add: Next_segment_end)
  with remaining_skip_le [of r] show ?case by simp
next
  case (failure r)
  then show ?case by (simp add: Next_failure)
next
  case (chunk r c cs)
  let ?sr = "(segmentReaders r ! currentReader r)\<lparr>blockNumber := nextBlockNumber c,
               chunkOffset := nextChunkOffset c, upcoming := cs\<rparr>"
  from chunk have "r' = r\<lparr>segmentReaders := (segmentReaders r)[currentReader r := ?sr]\<rparr>"
    by (simp add: Next_chunk)
  with remaining_update [OF chunk(1), of ?sr] chunk(2) show ?case by simp
qed

text \<open>
  The \<open>for\<close> loop of \<open>NewReaderWithStart\<close>. Each round first compares the current
  segment id, then the cursor, then calls \<open>Next\<close>.
\<close>

function seekStart :: "ChunkPosition \<Rightarrow> Reader \<Rightarrow> Reader result" where
  "seekStart startPos reader =
     (case CurrentSegmentId reader of
        Panic \<Rightarrow> Panic
      | Err err \<Rightarrow> Err err
      | Ok i \<Rightarrow>
          if i < SegmentId startPos then seekStart startPos (SkipCurrentSegment reader)
          else
            (case CurrentChunkPosition reader of
               Panic \<Rightarrow> Panic
             | Err err \<Rightarrow> Err err
             | Ok currentPos \<Rightarrow>
                 if BlockNumber currentPos \<ge> BlockNumber startPos \<and>
                    ChunkOffset currentPos \<ge> ChunkOffset startPos
                 then Ok reader
                 else
                   (case Next reader of
                      (Inr dp, reader') \<Rightarrow> seekStart startPos reader'
                    | (Inl err, reader') \<Rightarrow> if err = ErrEOF then Ok reader' else Err err)))"
  by pat_completeness auto
termination
proof (relation "measure (\<lambda>(sp, r). remaining r)")
  show "wf (measure (\<lambda>(sp, r). remaining r))" by simp
next
  fix startPos :: ChunkPosition and reader :: Reader and i
  assume "CurrentSegmentId reader = Ok i"
  then have "currentReader reader < length (segmentReaders reader)"
    by (simp add: CurrentSegmentId_def split: if_splits)
  then show "((startPos, SkipCurrentSegment reader), (startPos, reader))
      \<in> measure (\<lambda>(sp, r). remaining r)"
    using remaining_skip [of reader] by (simp add: SkipCurrentSegment_def)
next
  fix startPos :: ChunkPosition and reader :: Reader and x dp reader'
  assume "(x, reader') = Next reader" "x = Inr dp"
  then have "Next reader = (Inr dp, reader')" by simp
  then show "((startPos, reader'), (startPos, reader)) \<in> measure (\<lambda>(sp, r). remaining r)"
    by (simp add: Next_remaining)
qed

declare seekStart.simps [simp del]

text \<open>\<open>NewReaderWithStart\<close>; a nil \<open>startPos\<close> is \<open>None\<close>.\<close>

definition NewReaderWithStart :: "env \<Rightarrow> WAL \<Rightarrow> ChunkPosition option \<Rightarrow> Reader result" where
  "NewReaderWithStart e w startPos =
     (case startPos of
        None \<Rightarrow> Err ErrStartPosNil
      | Some sp \<Rightarrow> seekStart sp (NewReader e w))"

subsection \<open>The seek of the specification, in two phases\<close>

text \<open>
  The specification describes the seek as two phases. First: skip whole segment readers
  while the current segment id is less than that of the start position.
\<close>

function skipSegments :: "ChunkPosition \<Rightarrow> Reader \<Rightarrow> Reader" where
  "skipSegments startPos reader =
     (if currentReader reader < length (segmentReaders reader) \<and>
         seg_id (reader_segment (segmentReaders reader ! currentReader reader)) < SegmentId startPos
      then skipSegments startPos (SkipCurrentSegment reader)
      else reader)"
  by pat_completeness auto
termination
  by (relation "measure (\<lambda>(sp, r). length (segmentReaders r) - currentReader r)")
     (auto simp: SkipCurrentSegment_def)

text \<open>
  Second: call \<open>Next()\<close> until the cursor has \<open>block_number \<ge> startPos.block_number\<close> and
  \<open>chunk_offset \<ge> startPos.chunk_offset\<close>, or the end of the log is reached, and return the
  reader positioned there. The outcome is a reader (\<open>Inr\<close>) or the error of a \<open>Next()\<close>
  that failed otherwise than by the end of the log (\<open>Inl\<close>); a reader that has run past
  its last segment is at the end of the log.
\<close>

function advanceTo :: "ChunkPosition \<Rightarrow> Reader \<Rightarrow> error + Reader" where
  "advanceTo startPos reader =
     (if currentReader reader \<ge> length (segmentReaders reader) then Inr reader
      else if blockNumber (segmentReaders reader ! currentReader reader) \<ge> BlockNumber startPos \<and>
              chunkOffset (segmentReaders reader ! currentReader reader) \<ge> ChunkOffset startPos
      then Inr reader
      else
        (case Next reader of
           (Inr dp, reader') \<Rightarrow> advanceTo startPos reader'
         | (Inl err, reader') \<Rightarrow> if err = ErrEOF then Inr reader' else Inl err))"
  by pat_completeness auto
termination
proof (relation "measure (\<lambda>(sp, r). remaining r)")
  show "wf (measure (\<lambda>(sp, r). remaining r))" by simp
next
  fix startPos :: ChunkPosition and reader :: Reader and x dp reader'
  assume "(x, reader') = Next reader" "x = Inr dp"
  then have "Next reader = (Inr dp, reader')" by simp
  then show "((startPos, reader'), (startPos, reader)) \<in> measure (\<lambda>(sp, r). remaining r)"
    by (simp add: Next_remaining)
qed

text \<open>The outcome of the two phases as the result of the call.\<close>

definition seekOutcome :: "error + Reader \<Rightarrow> Reader result" where
  "seekOutcome x = (case x of Inl err \<Rightarrow> Err err | Inr reader \<Rightarrow> Ok reader)"

declare skipSegments.simps [simp del] advanceTo.simps [simp del]

subsection \<open>The invariant of the segment ids\<close>

text \<open>
  Every entry of the map is stored under the id of its segment, and that id is below the
  bound \<open>a\<close>; with \<open>a\<close> the id of the active segment, the active segment is strictly
  above every older one.
\<close>

fun olderBelow :: "SegSerialID \<Rightarrow> (SegSerialID \<times> segment) list \<Rightarrow> bool" where
  "olderBelow a [] = True"
| "olderBelow a ((k, s) # rest) = (k = seg_id s \<and> seg_id s < a \<and> olderBelow a rest)"

definition activeAboveOlder :: "WAL \<Rightarrow> bool" where
  "activeAboveOlder w = olderBelow (seg_id (activeSegment w)) (olderSegments w)"

text \<open>
  The ids read from a directory are pairwise distinct values of \<open>uint32\<close>: then the
  conversion \<open>uint32(segId)\<close> in \<open>Open\<close> keeps them apart and in order.
\<close>

definition idsDistinctInRange :: "int list \<Rightarrow> bool" where
  "idsDistinctInRange ids \<longleftrightarrow> distinct ids \<and> list_all (\<lambda>i. 0 \<le> i \<and> i < 2 ^ 32) ids"

text \<open>
  The states of a log: the state a successful \<open>Open\<close> returns, on a directory whose ids
  are distinct and in range, and the states left by \<open>Write\<close>, \<open>WriteAll\<close> and
  \<open>OpenNewActiveSegment\<close> (whatever they return, and whatever the segment layer answers),
  each started while the id of the active segment is below \<open>2 ^ 32 - 1\<close>, the last value
  of \<open>uint32\<close>; \<open>PendingWrites\<close> may stage records in between.
\<close>

inductive reachable :: "WAL \<Rightarrow> bool" where
  reach_Open:
    "\<lbrakk>Open e opts = Ok w; readDir_outcome e (DirPath opts) = Inr entries;
      idsDistinctInRange (segmentIDs (DiskFileExtension opts) entries)\<rbrakk> \<Longrightarrow> reachable w"
| reach_Write:
    "\<lbrakk>reachable w; seg_id (activeSegment w) < 4294967295; Write e w data = (res, w')\<rbrakk>
     \<Longrightarrow> reachable w'"
| reach_WriteAll:
    "\<lbrakk>reachable w; seg_id (activeSegment w) < 4294967295; WriteAll e w = (ress, w')\<rbrakk>
     \<Longrightarrow> reachable w'"
| reach_OpenNewActiveSegment:
    "\<lbrakk>reachable w; seg_id (activeSegment w) < 4294967295;
      OpenNewActiveSegment e w = (err, w')\<rbrakk> \<Longrightarrow> reachable w'"
| reach_PendingWrites:
    "reachable w \<Longrightarrow> reachable (PendingWrites w data)"

subsection \<open>Reading the cursor\<close>

definition segmentIdOf :: "segmentReader \<Rightarrow> SegSerialID" where
  "segmentIdOf sr = seg_id (reader_segment sr)"

text \<open>The cursor of the reader is at or after the start position, as the loop tests it.\<close>

definition cursorReached :: "ChunkPosition \<Rightarrow> Reader \<Rightarrow> bool" where
  "cursorReached startPos reader =
     (case CurrentChunkPosition reader of
        Ok currentPos \<Rightarrow>
          BlockNumber currentPos \<ge> BlockNumber startPos \<and>
          ChunkOffset currentPos \<ge> ChunkOffset startPos
      | Err err \<Rightarrow> False
      | Panic \<Rightarrow> False)"

subsection \<open>A sample log\<close>

text \<open>
  A log of one empty segment with id 1 in a directory without files, a segment size of
  10000 bytes and a sync every 1000 bytes; appends never fail and take seven bytes of
  header per record.
\<close>

definition seg1 :: segment where
  "seg1 = \<lparr>seg_id = 1, currentBlockNumber = 0, currentBlockSize = 0\<rparr>"

definition opts0 :: Options where
  "opts0 = \<lparr>DirPath = ''wal'', SegmentSize = 10000, BlockCache = 0,
            DiskFileExtension = ''.seg'', DiskFlushSync = False, BytesPerSync = 1000\<rparr>"

definition env0 :: env where
  "env0 =
     \<lparr>sync_outcome = (\<lambda>s. None),
      file_length = (\<lambda>i. Inr 0),
      write_outcome = (\<lambda>s data. Inr (currentBlockNumber s,
         currentBlockSize s + 7 + of_nat (length data),
         \<lparr>SegmentId = seg_id s, BlockNumber = currentBlockNumber s,
          ChunkOffset = uint (currentBlockSize s), ChunkSize = 7 + of_nat (length data)\<rparr>)),
      writeAll_outcome = (\<lambda>s batch. Inr (currentBlockNumber s,
         currentBlockSize s + of_nat (length batch) * 7 + of_nat (length (concat batch)),
         map (\<lambda>data. \<lparr>SegmentId = seg_id s, BlockNumber = currentBlockNumber s,
                      ChunkOffset = 0, ChunkSize = 7 + of_nat (length data)\<rparr>) batch)),
      mkdirAll_outcome = (\<lambda>d. None),
      readDir_outcome = (\<lambda>d. Inr []),
      stored = (\<lambda>s. ([], ErrEOF))\<rparr>"

definition wal0 :: WAL where
  "wal0 = newWAL opts0 seg1 []"

definition optsSync :: Options where
  "optsSync = opts0\<lparr>DiskFlushSync := True\<rparr>"

definition walStaged :: WAL where
  "walStaged = PendingWrites (PendingWrites (newWAL optsSync seg1 []) [1, 2, 3]) [4]"

definition walOversized :: WAL where
  "walOversized = PendingWrites wal0 (replicate 10000 0)"

text \<open>Further samples: directories, options and stored chunks used below.\<close>

definition envBackup :: env where
  "envBackup = env0\<lparr>readDir_outcome := (\<lambda>d. Inr [\<lparr>Name = ''5.seg.bak'', IsDir = False\<rparr>])\<rparr>"

definition optsLarge :: Options where
  "optsLarge = opts0\<lparr>SegmentSize := 4294967296, BlockCache := 32768\<rparr>"

definition walCounted :: WAL where
  "walCounted = snd (Write env0 wal0 [1, 2, 3])"

definition envLast :: env where
  "envLast = env0\<lparr>readDir_outcome := (\<lambda>d. Inr [\<lparr>Name = ''4294967295.seg'', IsDir = False\<rparr>])\<rparr>"

definition envTwins :: env where
  "envTwins = env0\<lparr>readDir_outcome := (\<lambda>d. Inr [\<lparr>Name = ''1.seg'', IsDir = False\<rparr>,
                                                  \<lparr>Name = ''01.seg'', IsDir = False\<rparr>])\<rparr>"

definition segLast :: segment where
  "segLast = \<lparr>seg_id = 4294967295, currentBlockNumber = 0, currentBlockSize = 0\<rparr>"

definition seg2 :: segment where
  "seg2 = \<lparr>seg_id = 2, currentBlockNumber = 0, currentBlockSize = 0\<rparr>"

definition envTwoFiles :: env where
  "envTwoFiles = env0\<lparr>readDir_outcome :=
     (\<lambda>d. Inr [\<lparr>Name = ''000000002.seg'', IsDir = False\<rparr>,
               \<lparr>Name = ''000000001.seg'', IsDir = False\<rparr>,
               \<lparr>Name = ''notes.txt'', IsDir = False\<rparr>])\<rparr>"

definition walTwoFiles :: WAL where
  "walTwoFiles = newWAL opts0 seg2 [(1, seg1)]"

definition startAt :: ChunkPosition where
  "startAt = \<lparr>SegmentId = 1, BlockNumber = 0, ChunkOffset = 17, ChunkSize = 0\<rparr>"

definition startBeyond :: ChunkPosition where
  "startBeyond = \<lparr>SegmentId = 2, BlockNumber = 0, ChunkOffset = 0, ChunkSize = 0\<rparr>"

definition envStored :: env where
  "envStored = env0\<lparr>stored := (\<lambda>s.
     ([\<lparr>readData = [1, 2, 3],
        readPosition = \<lparr>SegmentId = seg_id s, BlockNumber = 0, ChunkOffset = 0, ChunkSize = 10\<rparr>,
        nextBlockNumber = 0, nextChunkOffset = 10\<rparr>,
       \<lparr>readData = [],
        readPosition = \<lparr>SegmentId = seg_id s, BlockNumber = 0, ChunkOffset = 10, ChunkSize = 7\<rparr>,
        nextBlockNumber = 0, nextChunkOffset = 17\<rparr>,
       \<lparr>readData = [4],
        readPosition = \<lparr>SegmentId = seg_id s, BlockNumber = 0, ChunkOffset = 17, ChunkSize = 8\<rparr>,
        nextBlockNumber = 0, nextChunkOffset = 25\<rparr>], ErrEOF))\<rparr>"

definition envCorrupt :: env where
  "envCorrupt = env0\<lparr>stored := (\<lambda>s. ([], ErrIO 5))\<rparr>"

definition startInSecond :: ChunkPosition where
  "startInSecond = \<lparr>SegmentId = 2, BlockNumber = 0, ChunkOffset = 17, ChunkSize = 0\<rparr>"

definition readerAt :: Reader where
  "readerAt =
     \<lparr>segmentReaders =
        [segment_NewReader envStored seg1,
         \<lparr>reader_segment = seg2, blockNumber = 0, chunkOffset = 17,
          upcoming = [\<lparr>readData = [4],
             readPosition = \<lparr>SegmentId = 2, BlockNumber = 0, ChunkOffset = 17, ChunkSize = 8\<rparr>,
             nextBlockNumber = 0, nextChunkOffset = 25\<rparr>],
          ending = ErrEOF\<rparr>],
      currentReader = 1\<rparr>"

section \<open>Properties\<close>

text \<open>
  Claim C1. A payload with \<open>chunkHeaderSize + len(payload) > SegmentSize\<close> makes
  \<open>Write\<close> return \<open>ErrDataSizeTooLarge\<close> and leaves the whole state as it was: no
  rotation, no call on any segment (the history \<open>calls\<close> is part of the state), and
  \<open>bytesWrite\<close> unchanged.
\<close>

theorem Write_too_large:
  assumes "chunkHeaderSize + int (length data) > SegmentSize (options w)"
  shows "Write e w data = (Err ErrDataSizeTooLarge, w)"
  using assms by (simp add: Write_def add.commute)

theorem Write_too_large_witness:
  "chunkHeaderSize + int (length (replicate 10000 (0::8 word))) > SegmentSize (options wal0) \<and>
   Write env0 wal0 (replicate 10000 0) = (Err ErrDataSizeTooLarge, wal0)"
proof -
  have h: "chunkHeaderSize + int (length (replicate 10000 (0::8 word))) > SegmentSize (options wal0)"
    by (simp add: chunkHeaderSize_def wal0_def newWAL_def opts0_def)
  from h Write_too_large [OF h, of env0] show ?thesis by simp
qed

subsection \<open>Helper facts on rotation and appends\<close>

lemma rotate_cases:
  "rotateActiveSegment e w = (None, w1) \<Longrightarrow>
     calls w1 = calls w @ [CallSync (seg_id (activeSegment w)),
                          CallOpenSegment (seg_id (activeSegment w) + 1)] \<and>
     bytesWrite w1 = 0 \<and> options w1 = options w \<and>
     seg_id (activeSegment w1) = seg_id (activeSegment w) + 1 \<and>
     pendingWrites w1 = pendingWrites w \<and> pendingSize w1 = pendingSize w"
  by (auto simp: rotateActiveSegment_def logCall_def Let_def openSegmentFile_def
      split: option.splits sum.splits)

lemma segment_Write_id: "segment_Write e s data = Inr (s', p) \<Longrightarrow> seg_id s' = seg_id s"
  by (auto simp: segment_Write_def split: sum.splits prod.splits)

lemma segment_writeAll_id: "segment_writeAll e s batch = Inr (s', ps) \<Longrightarrow> seg_id s' = seg_id s"
  by (auto simp: segment_writeAll_def split: sum.splits prod.splits)

lemma appendActive_Ok:
  assumes "appendActive e w data = (Ok position, w')"
  shows "bytesWrite w' =
           (if needSync (options w) (bytesWrite w + ChunkSize position) then 0
            else bytesWrite w + ChunkSize position) \<and>
         calls w' = calls w @ [CallWrite (seg_id (activeSegment w'))] @
           (if needSync (options w) (bytesWrite w + ChunkSize position)
            then [CallSync (seg_id (activeSegment w'))] else [])"
  using assms
  by (auto simp: appendActive_def syncAfterWrite_def logCall_def Let_def
      dest: segment_Write_id split: sum.splits prod.splits if_splits option.splits)

lemma needSync_iff:
  "needSync opts c \<longleftrightarrow>
     DiskFlushSync opts \<or> (\<not> DiskFlushSync opts \<and> BytesPerSync opts > 0 \<and> c \<ge> BytesPerSync opts)"
  by (auto simp: needSync_def)

text \<open>
  Claim C2. \<open>WriteAll\<close> on an empty staging list returns the empty position list and no
  error (and does nothing); on a staging list that is not empty, a \<open>pendingSize\<close> above
  \<open>SegmentSize\<close> gives \<open>ErrPendingSizeTooLarge\<close>; and whenever the staging list is not
  empty (the paths that take the main lock), the state returned has an empty staging list
  and \<open>pendingSize = 0\<close>, whatever the result. The emptiness test comes first in the code,
  so the size test is read for staging lists that are not empty.
\<close>

theorem WriteAll_drains_pending:
  "(pendingWrites w = [] \<longrightarrow> WriteAll e w = (Ok [], w)) \<and>
   (pendingWrites w \<noteq> [] \<and> pendingSize w > SegmentSize (options w) \<longrightarrow>
      fst (WriteAll e w) = Err ErrPendingSizeTooLarge) \<and>
   (pendingWrites w \<noteq> [] \<longrightarrow>
      pendingWrites (snd (WriteAll e w)) = [] \<and> pendingSize (snd (WriteAll e w)) = 0)"
  by (simp add: WriteAll_def ClearPendingWrites_def Let_def
      split: prod.split option.split sum.split)

theorem WriteAll_drains_pending_witness:
  "pendingWrites wal0 = [] \<and> WriteAll env0 wal0 = (Ok [], wal0) \<and>
   pendingWrites walOversized \<noteq> [] \<and>
   pendingSize walOversized > SegmentSize (options walOversized) \<and>
   fst (WriteAll env0 walOversized) = Err ErrPendingSizeTooLarge \<and>
   pendingWrites (snd (WriteAll env0 walOversized)) = [] \<and>
   pendingSize (snd (WriteAll env0 walOversized)) = 0"
proof -
  have a: "pendingWrites wal0 = []"
    by (simp add: wal0_def newWAL_def)
  have b: "pendingWrites walOversized \<noteq> []"
    by (simp add: walOversized_def PendingWrites_def)
  have c: "pendingSize walOversized > SegmentSize (options walOversized)"
    by (simp add: walOversized_def PendingWrites_def wal0_def newWAL_def opts0_def
        maxDataWriteSize_def chunkHeaderSize_def blockSize_def)
  from a b c WriteAll_drains_pending [of wal0 env0]
    WriteAll_drains_pending [of walOversized env0]
  show ?thesis by simp
qed

text \<open>
  Claim C3. After a successful \<open>Write\<close>, with \<open>counter\<close> the value of \<open>bytesWrite\<close>
  before the append (0 if the write rotated) plus the chunk size of the returned position
  (32-bit addition): the active segment is synced after the append exactly when
  \<open>DiskFlushSync\<close> is set, or it is not set, \<open>BytesPerSync > 0\<close> and
  \<open>counter \<ge> BytesPerSync\<close>; \<open>bytesWrite\<close> ends as 0 if that sync happened and as
  \<open>counter\<close> otherwise. The history shows the calls of the write: those of the rotation,
  if any, the append, and then the sync or nothing.
\<close>

theorem Write_sync_accounting:
  assumes "Write e w data = (Ok position, w')"
  defines "rotated \<equiv> isFull w (int (length data))"
  defines "counter \<equiv> (if rotated then 0 else bytesWrite w) + ChunkSize position"
  defines "synced \<equiv> DiskFlushSync (options w) \<or>
     (\<not> DiskFlushSync (options w) \<and> BytesPerSync (options w) > 0 \<and>
      counter \<ge> BytesPerSync (options w))"
  shows "bytesWrite w' = (if synced then 0 else counter) \<and>
         calls w' =
           calls w @
           (if rotated then [CallSync (seg_id (activeSegment w)),
                             CallOpenSegment (seg_id (activeSegment w) + 1)] else []) @
           [CallWrite (seg_id (activeSegment w'))] @
           (if synced then [CallSync (seg_id (activeSegment w'))] else [])"
proof (cases rotated)
  case False
  with assms(1) have "appendActive e w data = (Ok position, w')"
    by (simp add: Write_def rotated_def split: if_splits)
  from appendActive_Ok [OF this] False show ?thesis
    by (simp add: needSync_iff synced_def counter_def)
next
  case True
  with assms(1) obtain w1 where rot: "rotateActiveSegment e w = (None, w1)"
    and app: "appendActive e w1 data = (Ok position, w')"
    by (auto simp: Write_def rotated_def split: if_splits prod.splits option.splits)
  from rotate_cases [OF rot] appendActive_Ok [OF app] True show ?thesis
    by (simp add: needSync_iff synced_def counter_def)
qed

theorem Write_sync_accounting_witness:
  "fst (Write env0 wal0 (replicate 1100 0)) =
     Ok \<lparr>SegmentId = 1, BlockNumber = 0, ChunkOffset = 0, ChunkSize = 1107\<rparr> \<and>
   bytesWrite (snd (Write env0 wal0 (replicate 1100 0))) = 0 \<and>
   calls (snd (Write env0 wal0 (replicate 1100 0))) = [CallWrite 1, CallSync 1]"
proof -
  let ?p = "\<lparr>SegmentId = 1, BlockNumber = 0, ChunkOffset = 0, ChunkSize = 1107\<rparr>"
  have full: "\<not> isFull wal0 (int (length (replicate 1100 (0::8 word))))"
    by (simp add: isFull_def Size_def wal0_def newWAL_def opts0_def seg1_def
        maxDataWriteSize_def chunkHeaderSize_def blockSize_def)
  have r: "fst (Write env0 wal0 (replicate 1100 0)) = Ok ?p"
    using full
    by (simp add: Write_def appendActive_def syncAfterWrite_def segment_Write_def
        needSync_def logCall_def Let_def wal0_def newWAL_def opts0_def seg1_def env0_def
        chunkHeaderSize_def)
  have i: "seg_id (activeSegment (snd (Write env0 wal0 (replicate 1100 0)))) = 1"
    using full
    by (simp add: Write_def appendActive_def syncAfterWrite_def segment_Write_def
        needSync_def logCall_def Let_def wal0_def newWAL_def opts0_def seg1_def env0_def
        chunkHeaderSize_def)
  have eq: "Write env0 wal0 (replicate 1100 0) = (Ok ?p, snd (Write env0 wal0 (replicate 1100 0)))"
    using r by (metis prod.collapse)
  from Write_sync_accounting [OF eq] full i r show ?thesis
    by (simp add: wal0_def newWAL_def opts0_def)
qed

text \<open>
  Claim C9. A successful \<open>WriteAll\<close> makes no call after the append of the batch: the
  history ends with \<open>CallWriteAll\<close>, whatever \<open>DiskFlushSync\<close> is, and \<open>bytesWrite\<close>
  keeps the value it had before the append (0 if the batch rotated the log, its old
  value otherwise).
\<close>

theorem WriteAll_no_sync:
  assumes "WriteAll e w = (Ok positions, w')"
  defines "rotated \<equiv> Size (activeSegment w) + pendingSize w > SegmentSize (options w)"
  shows "calls w' =
           calls w @
           (if pendingWrites w = [] then []
            else (if rotated then [CallSync (seg_id (activeSegment w)),
                                   CallOpenSegment (seg_id (activeSegment w) + 1)] else []) @
                 [CallWriteAll (seg_id (activeSegment w'))]) \<and>
         bytesWrite w' = (if pendingWrites w \<noteq> [] \<and> rotated then 0 else bytesWrite w)"
proof (cases "pendingWrites w = []")
  case True
  with assms(1) show ?thesis by (simp add: WriteAll_def)
next
  case False
  note ne = this
  show ?thesis
  proof (cases rotated)
    case False
    with ne assms(1) show ?thesis
      by (auto simp: WriteAll_def rotated_def ClearPendingWrites_def logCall_def Let_def
          dest: segment_writeAll_id split: if_splits sum.splits prod.splits)
  next
    case True
    with ne assms(1) obtain w1 where rot: "rotateActiveSegment e w = (None, w1)"
      by (auto simp: WriteAll_def rotated_def split: if_splits prod.splits option.splits)
    with ne True assms(1) rotate_cases [OF rot] show ?thesis
      by (auto simp: WriteAll_def rotated_def ClearPendingWrites_def logCall_def Let_def
          dest: segment_writeAll_id split: if_splits sum.splits prod.splits)
  qed
qed

theorem WriteAll_no_sync_witness:
  "DiskFlushSync (options walStaged) \<and>
   fst (WriteAll env0 walStaged) =
     Ok [\<lparr>SegmentId = 1, BlockNumber = 0, ChunkOffset = 0, ChunkSize = 10\<rparr>,
         \<lparr>SegmentId = 1, BlockNumber = 0, ChunkOffset = 0, ChunkSize = 8\<rparr>] \<and>
   calls (snd (WriteAll env0 walStaged)) = [CallWriteAll 1] \<and>
   bytesWrite (snd (WriteAll env0 walStaged)) = 0"
proof -
  let ?ps = "[\<lparr>SegmentId = 1, BlockNumber = 0, ChunkOffset = 0, ChunkSize = 10\<rparr>,
         \<lparr>SegmentId = 1, BlockNumber = 0, ChunkOffset = 0, ChunkSize = 8\<rparr>]"
  have d: "DiskFlushSync (options walStaged)"
    by (simp add: walStaged_def PendingWrites_def newWAL_def optsSync_def)
  have r: "fst (WriteAll env0 walStaged) = Ok ?ps"
    by (simp add: WriteAll_def walStaged_def PendingWrites_def newWAL_def optsSync_def
        opts0_def seg1_def env0_def segment_writeAll_def Size_def maxDataWriteSize_def
        chunkHeaderSize_def blockSize_def logCall_def Let_def)
  have i: "seg_id (activeSegment (snd (WriteAll env0 walStaged))) = 1"
    by (simp add: WriteAll_def walStaged_def PendingWrites_def newWAL_def optsSync_def
        opts0_def seg1_def env0_def segment_writeAll_def Size_def maxDataWriteSize_def
        chunkHeaderSize_def blockSize_def logCall_def Let_def ClearPendingWrites_def)
  have n: "\<not> Size (activeSegment walStaged) + pendingSize walStaged
             > SegmentSize (options walStaged)"
    by (simp add: walStaged_def PendingWrites_def newWAL_def optsSync_def
        opts0_def seg1_def Size_def maxDataWriteSize_def chunkHeaderSize_def blockSize_def)
  have eq: "WriteAll env0 walStaged = (Ok ?ps, snd (WriteAll env0 walStaged))"
    using r by (metis prod.collapse)
  from WriteAll_no_sync [OF eq] d r i n show ?thesis
    by (simp add: walStaged_def PendingWrites_def newWAL_def)
qed

subsection \<open>The active segment and the older segments\<close>

lemma olderBelow_iff:
  "olderBelow a al \<longleftrightarrow> (\<forall>(k, s) \<in> set al. k = seg_id s \<and> seg_id s < a)"
  by (induction a al rule: olderBelow.induct) auto

lemma set_update_subset: "set (AList.update k v al) \<subseteq> insert (k, v) (set al)"
  by (induction al) auto

lemma word_less_succ:
  assumes "(x::u32) < 4294967295"
  shows "x < x + 1"
proof -
  have "(4294967295::u32) = - 1" by simp
  with assms have "x \<noteq> - 1" by auto
  then have "\<not> x + 1 \<le> x" by (simp add: inc_less_eq_self_iff_eq)
  then show ?thesis by simp
qed

lemma olderBelow_rotated:
  assumes "olderBelow (seg_id a) older" and "seg_id a < 4294967295"
  shows "olderBelow (seg_id a + 1) (AList.update (seg_id a) a older)"
proof -
  have lt: "seg_id a < seg_id a + 1" using assms(2) by (rule word_less_succ)
  { fix k s assume "(k, s) \<in> set (AList.update (seg_id a) a older)"
    then have "(k, s) = (seg_id a, a) \<or> (k, s) \<in> set older"
      using set_update_subset [of "seg_id a" a older] by auto
    then have "k = seg_id s \<and> seg_id s < seg_id a + 1"
      using assms(1) lt by (auto simp: olderBelow_iff) }
  then show ?thesis by (auto simp: olderBelow_iff)
qed

lemma openSegmentFile_id: "openSegmentFile e i = Inr s \<Longrightarrow> seg_id s = i"
  by (auto simp: openSegmentFile_def split: sum.splits)

lemma rotate_keeps:
  assumes "activeAboveOlder w" and "seg_id (activeSegment w) < 4294967295"
    and "rotateActiveSegment e w = (err, w')"
  shows "activeAboveOlder w'"
proof (cases "sync_outcome e (activeSegment w)")
  case (Some x)
  with assms show ?thesis
    by (auto simp: rotateActiveSegment_def activeAboveOlder_def logCall_def Let_def)
next
  case None
  show ?thesis
  proof (cases "openSegmentFile e (seg_id (activeSegment w) + 1)")
    case (Inl x)
    with None assms show ?thesis
      by (auto simp: rotateActiveSegment_def activeAboveOlder_def logCall_def Let_def)
  next
    case (Inr s)
    with None assms(3) have "olderSegments w' =
        AList.update (seg_id (activeSegment w)) (activeSegment w) (olderSegments w)"
      and "activeSegment w' = s"
      by (auto simp: rotateActiveSegment_def logCall_def Let_def)
    with openSegmentFile_id [OF Inr] olderBelow_rotated [of "activeSegment w" "olderSegments w"] assms(1,2)
    show ?thesis by (simp add: activeAboveOlder_def)
  qed
qed

lemma openNew_keeps:
  assumes "activeAboveOlder w" and "seg_id (activeSegment w) < 4294967295"
    and "OpenNewActiveSegment e w = (err, w')"
  shows "activeAboveOlder w'"
proof (cases "sync_outcome e (activeSegment w)")
  case (Some x)
  with assms show ?thesis
    by (auto simp: OpenNewActiveSegment_def activeAboveOlder_def logCall_def Let_def)
next
  case None
  show ?thesis
  proof (cases "openSegmentFile e (seg_id (activeSegment w) + 1)")
    case (Inl x)
    with None assms show ?thesis
      by (auto simp: OpenNewActiveSegment_def activeAboveOlder_def logCall_def Let_def)
  next
    case (Inr s)
    with None assms(3) have "olderSegments w' =
        AList.update (seg_id (activeSegment w)) (activeSegment w) (olderSegments w)"
      and "activeSegment w' = s"
      by (auto simp: OpenNewActiveSegment_def logCall_def Let_def)
    with openSegmentFile_id [OF Inr] olderBelow_rotated [of "activeSegment w" "olderSegments w"] assms(1,2)
    show ?thesis by (simp add: activeAboveOlder_def)
  qed
qed

lemma appendActive_keeps:
  "activeAboveOlder w \<Longrightarrow> appendActive e w data = (res, w') \<Longrightarrow> activeAboveOlder w'"
  by (auto simp: appendActive_def syncAfterWrite_def logCall_def Let_def activeAboveOlder_def
      dest: segment_Write_id split: sum.splits prod.splits if_splits option.splits)

lemma Write_keeps:
  assumes "activeAboveOlder w" and "seg_id (activeSegment w) < 4294967295"
    and "Write e w data = (res, w')"
  shows "activeAboveOlder w'"
proof (cases "int (length data) + chunkHeaderSize > SegmentSize (options w)")
  case True
  with assms show ?thesis by (simp add: Write_def)
next
  case False
  note fits = this
  show ?thesis
  proof (cases "isFull w (int (length data))")
    case False
    with fits assms(3) have "appendActive e w data = (res, w')" by (simp add: Write_def)
    with assms(1) show ?thesis by (rule appendActive_keeps)
  next
    case True
    obtain er w1 where rot: "rotateActiveSegment e w = (er, w1)"
      by (cases "rotateActiveSegment e w")
    from rotate_keeps [OF assms(1,2) rot] have inv1: "activeAboveOlder w1" .
    show ?thesis
    proof (cases er)
      case (Some x)
      with rot True fits assms(3) inv1 show ?thesis by (simp add: Write_def)
    next
      case None
      with rot True fits assms(3) have "appendActive e w1 data = (res, w')"
        by (simp add: Write_def)
      with inv1 show ?thesis by (rule appendActive_keeps)
    qed
  qed
qed

lemma clear_keeps: "activeAboveOlder (ClearPendingWrites w) = activeAboveOlder w"
  by (simp add: ClearPendingWrites_def activeAboveOlder_def)

lemma writeAll_tail_keeps:
  assumes "activeAboveOlder w1"
    and "(case segment_writeAll e (activeSegment w1) (pendingWrites w1) of
            Inl er \<Rightarrow> (Err er, ClearPendingWrites (logCall c w1))
          | Inr (s, positions) \<Rightarrow>
              (Ok positions, ClearPendingWrites ((logCall c w1)\<lparr>activeSegment := s\<rparr>))) = (res, w')"
  shows "activeAboveOlder w'"
  using assms
  by (auto simp: ClearPendingWrites_def logCall_def activeAboveOlder_def
      dest: segment_writeAll_id split: sum.splits prod.splits)

lemma WriteAll_keeps:
  assumes "activeAboveOlder w" and "seg_id (activeSegment w) < 4294967295"
    and "WriteAll e w = (res, w')"
  shows "activeAboveOlder w'"
proof (cases "pendingWrites w = [] \<or> pendingSize w > SegmentSize (options w)")
  case True
  with assms show ?thesis
    by (auto simp: WriteAll_def clear_keeps split: if_splits)
next
  case False
  show ?thesis
  proof (cases "Size (activeSegment w) + pendingSize w > SegmentSize (options w)")
    case nrot: False
    with False assms(3) writeAll_tail_keeps [OF assms(1)] show ?thesis
      by (simp add: WriteAll_def Let_def)
  next
    case True
    obtain er w1 where rot: "rotateActiveSegment e w = (er, w1)" by (cases "rotateActiveSegment e w")
    from rotate_keeps [OF assms(1,2) rot] have inv1: "activeAboveOlder w1" .
    show ?thesis
    proof (cases er)
      case (Some x)
      with rot True False assms(3) inv1 show ?thesis
        by (auto simp: WriteAll_def clear_keeps)
    next
      case None
      with rot True False assms(3) writeAll_tail_keeps [OF inv1] show ?thesis
        by (simp add: WriteAll_def Let_def)
    qed
  qed
qed

lemma openOlder_entries:
  "openOlder e ids older = Inr older' \<Longrightarrow> (k, s) \<in> set older' \<Longrightarrow>
   (k, s) \<in> set older \<or> (k = seg_id s \<and> (\<exists>i \<in> set ids. seg_id s = word_of_int i))"
proof (induction ids arbitrary: older)
  case Nil
  then show ?case by simp
next
  case (Cons segId ids)
  from Cons.prems(1) obtain sg where op: "openSegmentFile e (word_of_int segId) = Inr sg"
    and rest: "openOlder e ids (AList.update (seg_id sg) sg older) = Inr older'"
    by (auto split: sum.splits)
  from Cons.IH [OF rest Cons.prems(2)]
  have "(k, s) \<in> set (AList.update (seg_id sg) sg older) \<or>
        (k = seg_id s \<and> (\<exists>i \<in> set ids. seg_id s = word_of_int i))" .
  then show ?case
    using set_update_subset [of "seg_id sg" sg older] openSegmentFile_id [OF op] by auto
qed

lemma butlast_below_last:
  fixes xs :: "int list"
  assumes "sorted xs" "distinct xs" "x \<in> set (butlast xs)"
  shows "x < last xs"
proof -
  from assms(3) have ne: "xs \<noteq> []" by auto
  then have xs: "xs = butlast xs @ [last xs]" by simp
  from assms(1) xs have "sorted (butlast xs @ [last xs])" by simp
  then have "x \<le> last xs" using assms(3) by (auto simp: sorted_append)
  moreover from assms(2) xs have "distinct (butlast xs @ [last xs])" by simp
  then have "x \<noteq> last xs" using assms(3) by auto
  ultimately show ?thesis by simp
qed

lemma word_of_int_less:
  "0 \<le> i \<Longrightarrow> i < j \<Longrightarrow> j < 2 ^ 32 \<Longrightarrow> (word_of_int i :: u32) < word_of_int j"
  by (simp add: word_less_def uint_word_of_int take_bit_eq_mod)

lemma Open_establishes:
  assumes "Open e opts = Ok w" and "readDir_outcome e (DirPath opts) = Inr entries"
    and "idsDistinctInRange (segmentIDs (DiskFileExtension opts) entries)"
  shows "activeAboveOlder w"
proof (cases "segmentIDs (DiskFileExtension opts) entries = []")
  case True
  with assms(1,2) show ?thesis
    by (auto simp: Open_def Let_def activeAboveOlder_def newWAL_def
        split: option.splits sum.splits)
next
  case False
  let ?ids = "sort (segmentIDs (DiskFileExtension opts) entries)"
  from False assms(1,2) obtain older s where
    old: "openOlder e (butlast ?ids) [] = Inr older"
    and act: "openSegmentFile e (word_of_int (last ?ids)) = Inr s"
    and w: "w = newWAL opts s older"
    by (auto simp: Open_def Let_def split: option.splits sum.splits)
  have range: "\<forall>i \<in> set ?ids. 0 \<le> i \<and> i < 2 ^ 32"
    using assms(3) by (simp add: idsDistinctInRange_def list_all_iff)
  have ne: "?ids \<noteq> []" using False by (metis length_sort length_0_conv)
  then have lastin: "last ?ids \<in> set ?ids" by (rule last_in_set)
  have dist: "distinct ?ids" using assms(3) by (simp add: idsDistinctInRange_def)
  { fix k sg assume "(k, sg) \<in> set older"
    with openOlder_entries [OF old] obtain i where
      i: "i \<in> set (butlast ?ids)" and k: "k = seg_id sg" and sg: "seg_id sg = word_of_int i"
      by auto
    from i have "i < last ?ids" using dist by (intro butlast_below_last) simp_all
    moreover from i have "i \<in> set ?ids" by (rule in_set_butlastD)
    ultimately have "(word_of_int i :: u32) < word_of_int (last ?ids)"
      using range lastin by (intro word_of_int_less) auto
    with k sg openSegmentFile_id [OF act] have "k = seg_id sg \<and> seg_id sg < seg_id s" by simp }
  then show ?thesis
    by (auto simp: activeAboveOlder_def olderBelow_iff w newWAL_def)
qed

text \<open>
  The id of a new segment is \<open>activeSegment.id + 1\<close> in 32 bits. A directory holding
  the file \<open>4294967295.seg\<close> opens with that id active; forcing a rotation then makes
  segment 0 the active one, below the segment just moved to the map. And a directory
  holding \<open>1.seg\<close> and \<open>01.seg\<close> opens with segment 1 both active and in the map.
\<close>

theorem active_not_above_older:
  "Open envLast opts0 = Ok (newWAL opts0 segLast []) \<and>
   fst (OpenNewActiveSegment envLast (newWAL opts0 segLast [])) = None \<and>
   olderSegments (snd (OpenNewActiveSegment envLast (newWAL opts0 segLast []))) =
     [(4294967295, segLast)] \<and>
   seg_id (activeSegment (snd (OpenNewActiveSegment envLast (newWAL opts0 segLast [])))) = 0 \<and>
   seg_id segLast = 4294967295 \<and>
   \<not> activeAboveOlder (snd (OpenNewActiveSegment envLast (newWAL opts0 segLast []))) \<and>
   Open envTwins opts0 = Ok (newWAL opts0 seg1 [(1, seg1)]) \<and>
   \<not> activeAboveOlder (newWAL opts0 seg1 [(1, seg1)])"
proof -
  have a: "Sscanf_id ''4294967295.seg'' ''.seg'' = Some 4294967295"
    "Sscanf_id ''1.seg'' ''.seg'' = Some 1" "Sscanf_id ''01.seg'' ''.seg'' = Some 1"
    by (simp_all add: Sscanf_id_def scanInt_def acceptSign_def isDigit_def isSpace_def Let_def)
  have b: "Open envLast opts0 = Ok (newWAL opts0 segLast [])"
    using a
    by (simp add: Open_def checkOptions_def envLast_def env0_def opts0_def
        openSegmentFile_def blockSize_def segLast_def)
  have c: "Open envTwins opts0 = Ok (newWAL opts0 seg1 [(1, seg1)])"
    using a
    by (simp add: Open_def checkOptions_def envTwins_def env0_def opts0_def
        openSegmentFile_def blockSize_def seg1_def)
  have d: "\<not> activeAboveOlder (newWAL opts0 seg1 [(1, seg1)])"
    by (simp add: activeAboveOlder_def newWAL_def)
  show ?thesis
    using b c d
    by (simp add: OpenNewActiveSegment_def envLast_def env0_def openSegmentFile_def
        logCall_def Let_def newWAL_def segLast_def activeAboveOlder_def)
qed

text \<open>
  Claim C4, amended. In every state reachable from a successful \<open>Open\<close> of a directory
  whose segment ids are pairwise distinct and fit \<open>uint32\<close>, by \<open>Write\<close>, \<open>WriteAll\<close>
  and \<open>OpenNewActiveSegment\<close> operations each started while the active id is below
  \<open>2 ^ 32 - 1\<close>, there is one active segment (a field of the state), every older segment
  is stored under its own id, and the id of the active segment is strictly greater than
  the id of every older segment.
\<close>

theorem reachable_active_above_older:
  "reachable w \<Longrightarrow> activeAboveOlder w"
proof (induction rule: reachable.induct)
  case (reach_Open e opts w entries)
  then show ?case by (rule Open_establishes)
next
  case (reach_Write w e data res w')
  then show ?case using Write_keeps by blast
next
  case (reach_WriteAll w e ress w')
  then show ?case using WriteAll_keeps by blast
next
  case (reach_OpenNewActiveSegment w e err w')
  then show ?case using openNew_keeps by blast
next
  case (reach_PendingWrites w data)
  then show ?case by (simp add: PendingWrites_def activeAboveOlder_def)
qed


lemma scan_samples:
  "Sscanf_id ''000000002.seg'' ''.seg'' = Some 2"
  "Sscanf_id ''000000001.seg'' ''.seg'' = Some 1"
  "Sscanf_id ''notes.txt'' ''.seg'' = None"
  by (simp_all add: Sscanf_id_def scanInt_def acceptSign_def isDigit_def isSpace_def Let_def)

theorem reachable_active_above_older_witness:
  "reachable (snd (OpenNewActiveSegment envTwoFiles walTwoFiles)) \<and>
   olderSegments (snd (OpenNewActiveSegment envTwoFiles walTwoFiles)) = [(1, seg1), (2, seg2)] \<and>
   seg_id (activeSegment (snd (OpenNewActiveSegment envTwoFiles walTwoFiles))) = 3 \<and>
   activeAboveOlder (snd (OpenNewActiveSegment envTwoFiles walTwoFiles))"
proof -
  have rd: "readDir_outcome envTwoFiles (DirPath opts0) =
      Inr [\<lparr>Name = ''000000002.seg'', IsDir = False\<rparr>,
           \<lparr>Name = ''000000001.seg'', IsDir = False\<rparr>,
           \<lparr>Name = ''notes.txt'', IsDir = False\<rparr>]"
    by (simp add: envTwoFiles_def)
  have ids: "segmentIDs (DiskFileExtension opts0)
      [\<lparr>Name = ''000000002.seg'', IsDir = False\<rparr>,
       \<lparr>Name = ''000000001.seg'', IsDir = False\<rparr>,
       \<lparr>Name = ''notes.txt'', IsDir = False\<rparr>] = [2, 1]"
    by (simp add: opts0_def scan_samples)
  have ok: "idsDistinctInRange (segmentIDs (DiskFileExtension opts0)
      [\<lparr>Name = ''000000002.seg'', IsDir = False\<rparr>,
       \<lparr>Name = ''000000001.seg'', IsDir = False\<rparr>,
       \<lparr>Name = ''notes.txt'', IsDir = False\<rparr>])"
    by (simp only: ids) (simp add: idsDistinctInRange_def)
  have op: "Open envTwoFiles opts0 = Ok walTwoFiles"
    by (simp add: Open_def checkOptions_def Let_def envTwoFiles_def env0_def opts0_def
        scan_samples openSegmentFile_def blockSize_def walTwoFiles_def seg1_def seg2_def)
  have r0: "reachable walTwoFiles"
    by (rule reach_Open [OF op rd ok])
  have lt: "seg_id (activeSegment walTwoFiles) < 4294967295"
    by (simp add: walTwoFiles_def newWAL_def seg2_def)
  have r1: "reachable (snd (OpenNewActiveSegment envTwoFiles walTwoFiles))"
    by (rule reach_OpenNewActiveSegment [OF r0 lt, of envTwoFiles
          "fst (OpenNewActiveSegment envTwoFiles walTwoFiles)"]) simp
  have ev: "olderSegments (snd (OpenNewActiveSegment envTwoFiles walTwoFiles))
              = [(1, seg1), (2, seg2)]"
     "seg_id (activeSegment (snd (OpenNewActiveSegment envTwoFiles walTwoFiles))) = 3"
    by (simp_all add: OpenNewActiveSegment_def envTwoFiles_def env0_def openSegmentFile_def
        logCall_def Let_def walTwoFiles_def newWAL_def seg2_def seg1_def)
  from reachable_active_above_older [OF r1] r1 ev show ?thesis by simp
qed

subsection \<open>Which directory entries are segments\<close>

text \<open>
  Claim C5. The claim takes as segments exactly the names matching \<open>^\d+{ext}$\<close>. The
  code parses with \<open>Sscanf\<close>, which stops at the end of the format and never looks at the
  rest of the name: in a directory holding only \<open>5.seg.bak\<close>, \<open>Open\<close> reads the id 5
  from that name and opens segment 5 as the active segment, where the claim has the name
  ignored and a fresh segment 1 created.
\<close>

theorem Open_takes_backup_file:
  "Sscanf_id ''5.seg.bak'' ''.seg'' = Some 5 \<and>
   Open envBackup opts0 =
     Ok (newWAL opts0 \<lparr>seg_id = 5, currentBlockNumber = 0, currentBlockSize = 0\<rparr> [])"
proof -
  have a: "Sscanf_id ''5.seg.bak'' ''.seg'' = Some 5"
    by (simp add: Sscanf_id_def scanInt_def acceptSign_def isDigit_def isSpace_def Let_def)
  then show ?thesis
    by (simp add: Open_def checkOptions_def envBackup_def env0_def opts0_def
        openSegmentFile_def blockSize_def)
qed

subsection \<open>Seeking a start position\<close>

lemma Next_Ok_cursor:
  "Next r = (Inr x, r') \<Longrightarrow>
     currentReader r \<le> currentReader r' \<and> currentReader r' < length (segmentReaders r') \<and>
     map segmentIdOf (segmentReaders r') = map segmentIdOf (segmentReaders r)"
proof (induction r rule: Next_induct)
  case (at_end r)
  then show ?case by (simp add: Next_at_end)
next
  case (segment_end r)
  then show ?case by (simp add: Next_segment_end)
next
  case (failure r)
  then show ?case by (simp add: Next_failure)
next
  case (chunk r c cs)
  let ?sr = "(segmentReaders r ! currentReader r)\<lparr>blockNumber := nextBlockNumber c,
               chunkOffset := nextChunkOffset c, upcoming := cs\<rparr>"
  from chunk have r': "r' = r\<lparr>segmentReaders := (segmentReaders r)[currentReader r := ?sr]\<rparr>"
    by (simp add: Next_chunk)
  have "segmentIdOf ?sr = segmentIdOf (segmentReaders r ! currentReader r)"
    by (simp add: segmentIdOf_def)
  then have "map segmentIdOf ((segmentReaders r)[currentReader r := ?sr])
             = map segmentIdOf (segmentReaders r)"
    using chunk(1) by (simp add: map_update list_update_same_conv)
  with r' chunk(1) show ?case by simp
qed

lemma Next_EOF_cursor:
  "Next r = (Inl ErrEOF, r') \<Longrightarrow> currentReader r' \<ge> length (segmentReaders r')"
proof (induction r rule: Next_induct)
  case (at_end r)
  then show ?case by (simp add: Next_at_end)
next
  case (segment_end r)
  then show ?case by (simp add: Next_segment_end)
next
  case (failure r)
  then show ?case by (simp add: Next_failure)
next
  case (chunk r c cs)
  then show ?case by (simp add: Next_chunk)
qed

lemma skipSegments_stay:
  assumes "currentReader r < length (segmentReaders r)"
    and "SegmentId sp \<le> segmentIdOf (segmentReaders r ! currentReader r)"
  shows "skipSegments sp r = r"
  using assms by (subst skipSegments.simps) (simp add: segmentIdOf_def)

lemma seekStart_skip:
  "\<lbrakk>CurrentSegmentId r = Ok i; i < SegmentId sp\<rbrakk>
   \<Longrightarrow> seekStart sp r = seekStart sp (SkipCurrentSegment r)"
  by (subst seekStart.simps) simp

lemma seekStart_reached:
  "\<lbrakk>CurrentSegmentId r = Ok i; \<not> i < SegmentId sp; CurrentChunkPosition r = Ok cp;
    BlockNumber cp \<ge> BlockNumber sp; ChunkOffset cp \<ge> ChunkOffset sp\<rbrakk>
   \<Longrightarrow> seekStart sp r = Ok r"
  by (subst seekStart.simps) simp

lemma seekStart_step:
  "\<lbrakk>CurrentSegmentId r = Ok i; \<not> i < SegmentId sp; CurrentChunkPosition r = Ok cp;
    \<not> (BlockNumber cp \<ge> BlockNumber sp \<and> ChunkOffset cp \<ge> ChunkOffset sp)\<rbrakk>
   \<Longrightarrow> seekStart sp r =
         (case Next r of
            (Inr dp, r') \<Rightarrow> seekStart sp r'
          | (Inl err, r') \<Rightarrow> if err = ErrEOF then Ok r' else Err err)"
  by (subst seekStart.simps) auto

lemma advanceTo_at_end:
  "currentReader r \<ge> length (segmentReaders r) \<Longrightarrow> advanceTo sp r = Inr r"
  by (subst advanceTo.simps) simp

lemma advanceTo_reached:
  "\<lbrakk>currentReader r < length (segmentReaders r);
    blockNumber (segmentReaders r ! currentReader r) \<ge> BlockNumber sp;
    chunkOffset (segmentReaders r ! currentReader r) \<ge> ChunkOffset sp\<rbrakk>
   \<Longrightarrow> advanceTo sp r = Inr r"
  by (subst advanceTo.simps) simp

lemma advanceTo_step:
  "\<lbrakk>currentReader r < length (segmentReaders r);
    \<not> (blockNumber (segmentReaders r ! currentReader r) \<ge> BlockNumber sp \<and>
       chunkOffset (segmentReaders r ! currentReader r) \<ge> ChunkOffset sp)\<rbrakk>
   \<Longrightarrow> advanceTo sp r =
         (case Next r of
            (Inr dp, r') \<Rightarrow> advanceTo sp r'
          | (Inl err, r') \<Rightarrow> if err = ErrEOF then Inr r' else Inl err)"
  by (subst advanceTo.simps) auto

lemma seekStart_two_phase:
  assumes "sorted (map segmentIdOf (segmentReaders r))"
    and "\<exists>i. currentReader r \<le> i \<and> i < length (segmentReaders r) \<and>
             SegmentId sp \<le> segmentIdOf (segmentReaders r ! i)"
  shows "seekStart sp r = seekOutcome (advanceTo sp (skipSegments sp r))"
  using assms
proof (induction sp r rule: seekStart.induct)
  case (1 sp r)
  from "1.prems"(2) obtain i where i: "currentReader r \<le> i" "i < length (segmentReaders r)"
    "SegmentId sp \<le> segmentIdOf (segmentReaders r ! i)" by blast
  then have lt: "currentReader r < length (segmentReaders r)" by simp
  let ?sr = "segmentReaders r ! currentReader r"
  let ?cur = "segmentIdOf ?sr"
  let ?cp = "\<lparr>SegmentId = seg_id (reader_segment ?sr), BlockNumber = blockNumber ?sr,
             ChunkOffset = chunkOffset ?sr, ChunkSize = 0\<rparr>"
  have cid: "CurrentSegmentId r = Ok ?cur"
    using lt by (simp add: CurrentSegmentId_def segmentIdOf_def)
  have cp: "CurrentChunkPosition r = Ok ?cp"
    using lt by (simp add: CurrentChunkPosition_def Let_def)
  show ?case
  proof (cases "?cur < SegmentId sp")
    case True
    then have ne: "i \<noteq> currentReader r" using i(3) by auto
    have "seekStart sp (SkipCurrentSegment r)
            = seekOutcome (advanceTo sp (skipSegments sp (SkipCurrentSegment r)))"
    proof (rule "1.IH"(1) [OF cid True])
      show "sorted (map segmentIdOf (segmentReaders (SkipCurrentSegment r)))"
        using "1.prems"(1) by (simp add: SkipCurrentSegment_def)
      show "\<exists>i. currentReader (SkipCurrentSegment r) \<le> i \<and>
              i < length (segmentReaders (SkipCurrentSegment r)) \<and>
              SegmentId sp \<le> segmentIdOf (segmentReaders (SkipCurrentSegment r) ! i)"
        using i ne by (intro exI [of _ i]) (simp add: SkipCurrentSegment_def)
    qed
    moreover have "seekStart sp r = seekStart sp (SkipCurrentSegment r)"
      using cid True by (rule seekStart_skip)
    moreover have "skipSegments sp r = skipSegments sp (SkipCurrentSegment r)"
      using lt True by (subst skipSegments.simps) (simp add: segmentIdOf_def)
    ultimately show ?thesis by simp
  next
    case False
    then have ge: "SegmentId sp \<le> ?cur" by simp
    have stay: "skipSegments sp r = r" using lt ge by (rule skipSegments_stay)
    show ?thesis
    proof (cases "blockNumber ?sr \<ge> BlockNumber sp \<and> chunkOffset ?sr \<ge> ChunkOffset sp")
      case True
      then have a: "blockNumber ?sr \<ge> BlockNumber sp" and b: "chunkOffset ?sr \<ge> ChunkOffset sp"
        by blast+
      have "seekStart sp r = Ok r"
        using a b by (intro seekStart_reached [OF cid False cp]) simp_all
      moreover have "advanceTo sp r = Inr r"
        by (rule advanceTo_reached [OF lt a b])
      ultimately show ?thesis using stay by (simp add: seekOutcome_def)
    next
      case nreach: False
      then have nreach': "\<not> (BlockNumber ?cp \<ge> BlockNumber sp \<and> ChunkOffset ?cp \<ge> ChunkOffset sp)"
        by simp
      note ss = seekStart_step [OF cid False cp nreach']
      note as = advanceTo_step [OF lt nreach]
      obtain x r' where nx: "Next r = (x, r')" by (cases "Next r")
      show ?thesis
      proof (cases x)
        case (Inr dp)
        from nx Inr have nok: "Next r = (Inr dp, r')" by simp
        note c = Next_Ok_cursor [OF nok]
        have srt: "sorted (map segmentIdOf (segmentReaders r'))"
          using c "1.prems"(1) by simp
        have len: "length (segmentReaders r') = length (segmentReaders r)"
          using c by (metis length_map)
        have mono: "map segmentIdOf (segmentReaders r) ! currentReader r
                \<le> map segmentIdOf (segmentReaders r) ! currentReader r'"
          using "1.prems"(1) c len by (intro sorted_nth_mono) simp_all
        have e0: "map segmentIdOf (segmentReaders r) ! currentReader r
                = segmentIdOf (segmentReaders r ! currentReader r)"
          using lt by (intro nth_map)
        have e1: "map segmentIdOf (segmentReaders r') ! currentReader r'
                = segmentIdOf (segmentReaders r' ! currentReader r')"
          using c by (intro nth_map) simp
        have e2: "map segmentIdOf (segmentReaders r') = map segmentIdOf (segmentReaders r)"
          using c by simp
        from mono e0 e1 e2 ge
        have ge': "SegmentId sp \<le> segmentIdOf (segmentReaders r' ! currentReader r')"
          by (simp only:)
        have ex: "\<exists>i. currentReader r' \<le> i \<and> i < length (segmentReaders r') \<and>
             SegmentId sp \<le> segmentIdOf (segmentReaders r' ! i)"
          using c ge' by blast
        have "seekStart sp r' = seekOutcome (advanceTo sp (skipSegments sp r'))"
          using "1.IH"(2) [OF cid False cp nreach' nx [symmetric] Inr srt ex] .
        moreover have "skipSegments sp r' = r'"
          using c ge' by (intro skipSegments_stay) simp_all
        moreover have "seekStart sp r = seekStart sp r'"
          using ss nok by simp
        moreover have "advanceTo sp r = advanceTo sp r'"
          using as nok by simp
        ultimately show ?thesis using stay by simp
      next
        case (Inl er)
        with ss as nx stay show ?thesis by (simp add: seekOutcome_def)
      qed
    qed
  qed
qed

lemma advanceTo_Inr:
  "advanceTo sp r = Inr r' \<Longrightarrow>
     cursorReached sp r' \<or> currentReader r' \<ge> length (segmentReaders r')"
proof (induction sp r rule: advanceTo.induct)
  case (1 sp r)
  show ?case
  proof (cases "currentReader r \<ge> length (segmentReaders r)")
    case True
    with "1.prems" show ?thesis by (simp add: advanceTo_at_end)
  next
    case False
    then have lt: "currentReader r < length (segmentReaders r)" by simp
    let ?sr = "segmentReaders r ! currentReader r"
    show ?thesis
    proof (cases "blockNumber ?sr \<ge> BlockNumber sp \<and> chunkOffset ?sr \<ge> ChunkOffset sp")
      case True
      then have a: "blockNumber ?sr \<ge> BlockNumber sp" and b: "chunkOffset ?sr \<ge> ChunkOffset sp"
        by blast+
      from advanceTo_reached [OF lt a b] "1.prems" have "r' = r" by simp
      with lt a b show ?thesis
        by (simp add: cursorReached_def CurrentChunkPosition_def Let_def)
    next
      case nreach: False
      note as = advanceTo_step [OF lt nreach]
      obtain x r1 where nx: "Next r = (x, r1)" by (cases "Next r")
      show ?thesis
      proof (cases x)
        case (Inr dp)
        with nx as "1.prems" have "advanceTo sp r1 = Inr r'" by simp
        from "1.IH" [OF False nreach nx [symmetric] Inr this]
        show ?thesis .
      next
        case (Inl er)
        with nx as "1.prems" have "er = ErrEOF \<and> r' = r1"
          by (simp split: if_splits)
        with nx Inl Next_EOF_cursor [of r r1] show ?thesis by simp
      qed
    qed
  qed
qed

lemma NewReader_readers:
  "set (segmentReaders (NewReader e w)) =
     segment_NewReader e ` set (map snd (olderSegments w) @ [activeSegment w])"
  by (simp add: NewReader_def NewReaderWithMax_def Let_def image_Un image_image)

lemma NewReader_sorted: "sorted (map segmentIdOf (segmentReaders (NewReader e w)))"
proof -
  have "segmentIdOf = (\<lambda>sr. seg_id (reader_segment sr))"
    by (rule ext) (simp add: segmentIdOf_def)
  then show ?thesis
    by (simp add: NewReader_def NewReaderWithMax_def Let_def)
qed

text \<open>
  Two inputs on which \<open>NewReaderWithStart\<close> returns no reader: a chunk that cannot be read
  makes it return the error of \<open>Next\<close>, and a start position in a segment after the last
  one makes it index the readers out of range.
\<close>

theorem NewReaderWithStart_no_reader:
  "NewReaderWithStart envCorrupt wal0 (Some startAt) = Err (ErrIO 5) \<and>
   NewReaderWithStart envStored wal0 (Some startBeyond) = Panic"
  by (simp add: NewReaderWithStart_def NewReader_def NewReaderWithMax_def wal0_def newWAL_def
      seg1_def env0_def envCorrupt_def envStored_def segment_NewReader_def CurrentSegmentId_def
      CurrentChunkPosition_def SkipCurrentSegment_def startAt_def startBeyond_def
      seekStart.simps Next.simps segmentReader_Next_def Let_def)

text \<open>
  Claim C6, amended. For a start position that is not nil and a log with some segment
  whose id is at least \<open>startPos.SegmentId\<close>, \<open>NewReaderWithStart\<close> returns a reader or an
  error, never a panic, and its result is that of the two phases: it builds the full
  reader, skips whole segment readers while the current segment id is less than
  \<open>startPos.SegmentId\<close>, and then calls \<open>Next()\<close> until the cursor has
  \<open>BlockNumber \<ge> startPos.BlockNumber\<close> and \<open>ChunkOffset \<ge> startPos.ChunkOffset\<close> or the end
  of the log is reached, returning the reader positioned there; an error of \<open>Next()\<close>
  other than \<open>io.EOF\<close> is returned in place of a reader. A reader that is returned has
  its cursor at or after the start position in that sense, or is at the end of the log.
\<close>

theorem NewReaderWithStart_two_phase:
  assumes "list_ex (\<lambda>s. SegmentId sp \<le> seg_id s) (activeSegment w # map snd (olderSegments w))"
  shows "NewReaderWithStart e w (Some sp) =
           seekOutcome (advanceTo sp (skipSegments sp (NewReader e w))) \<and>
         NewReaderWithStart e w (Some sp) \<noteq> Panic \<and>
         (\<forall>r. NewReaderWithStart e w (Some sp) = Ok r \<longrightarrow>
               cursorReached sp r \<or> currentReader r \<ge> length (segmentReaders r))"
proof -
  from assms obtain s where s: "s \<in> set (map snd (olderSegments w) @ [activeSegment w])"
    and ge: "SegmentId sp \<le> seg_id s"
    by (auto simp: list_ex_iff)
  then have "segment_NewReader e s \<in> set (segmentReaders (NewReader e w))"
    by (simp only: NewReader_readers) (rule imageI)
  then obtain i where i: "i < length (segmentReaders (NewReader e w))"
    and at: "segmentReaders (NewReader e w) ! i = segment_NewReader e s"
    by (auto simp: in_set_conv_nth)
  have cur: "currentReader (NewReader e w) = 0"
    by (simp add: NewReader_def NewReaderWithMax_def Let_def)
  have "segmentIdOf (segment_NewReader e s) = seg_id s"
    by (simp add: segmentIdOf_def segment_NewReader_def)
  with i at ge cur have ex: "\<exists>i. currentReader (NewReader e w) \<le> i \<and>
      i < length (segmentReaders (NewReader e w)) \<and>
      SegmentId sp \<le> segmentIdOf (segmentReaders (NewReader e w) ! i)"
    by (intro exI [of _ i]) simp
  have eq: "NewReaderWithStart e w (Some sp) =
      seekOutcome (advanceTo sp (skipSegments sp (NewReader e w)))"
    using seekStart_two_phase [OF NewReader_sorted ex] by (simp add: NewReaderWithStart_def)
  have np: "NewReaderWithStart e w (Some sp) \<noteq> Panic"
    by (simp only: eq) (simp add: seekOutcome_def split: sum.split)
  have "cursorReached sp r \<or> currentReader r \<ge> length (segmentReaders r)"
    if "NewReaderWithStart e w (Some sp) = Ok r" for r
  proof -
    from that eq have "advanceTo sp (skipSegments sp (NewReader e w)) = Inr r"
      by (simp add: seekOutcome_def split: sum.splits)
    then show ?thesis by (rule advanceTo_Inr)
  qed
  with eq np show ?thesis by blast
qed

theorem NewReaderWithStart_two_phase_witness:
  "list_ex (\<lambda>s. SegmentId startInSecond \<le> seg_id s)
     (activeSegment walTwoFiles # map snd (olderSegments walTwoFiles)) \<and>
   currentReader (skipSegments startInSecond (NewReader envStored walTwoFiles)) = 1 \<and>
   NewReaderWithStart envStored walTwoFiles (Some startInSecond) = Ok readerAt \<and>
   NewReaderWithStart envStored walTwoFiles (Some startInSecond) \<noteq> Panic \<and>
   cursorReached startInSecond readerAt"
proof -
  have h: "list_ex (\<lambda>s. SegmentId startInSecond \<le> seg_id s)
     (activeSegment walTwoFiles # map snd (olderSegments walTwoFiles))"
    by (simp add: startInSecond_def walTwoFiles_def newWAL_def seg2_def)
  have nr: "NewReader envStored walTwoFiles =
     \<lparr>segmentReaders = [segment_NewReader envStored seg1, segment_NewReader envStored seg2],
      currentReader = 0\<rparr>"
    by (simp add: NewReader_def NewReaderWithMax_def walTwoFiles_def newWAL_def
        segment_NewReader_def seg1_def seg2_def)
  have sk: "skipSegments startInSecond (NewReader envStored walTwoFiles) =
     \<lparr>segmentReaders = [segment_NewReader envStored seg1, segment_NewReader envStored seg2],
      currentReader = 1\<rparr>"
    by (simp only: nr)
       (simp add: skipSegments.simps SkipCurrentSegment_def segment_NewReader_def
         startInSecond_def seg1_def seg2_def)
  have ev: "advanceTo startInSecond
     \<lparr>segmentReaders = [segment_NewReader envStored seg1, segment_NewReader envStored seg2],
      currentReader = 1\<rparr> = Inr readerAt"
    by (simp add: segment_NewReader_def envStored_def env0_def startInSecond_def seg1_def
        seg2_def readerAt_def advanceTo.simps Next.simps segmentReader_Next_def)
  have inb: "currentReader readerAt < length (segmentReaders readerAt)"
    by (simp add: readerAt_def)
  from NewReaderWithStart_two_phase [OF h, of envStored] h sk ev inb show ?thesis
    by (auto simp: seekOutcome_def)
qed

text \<open>
  The condition on the segment ids is needed: with one segment of id 1 and a start
  position in segment 2 the two phases end at the end of the log, and the call does not.
\<close>

lemma two_phase_needs_segment:
  "NewReaderWithStart envStored wal0 (Some startBeyond) \<noteq>
     seekOutcome (advanceTo startBeyond (skipSegments startBeyond (NewReader envStored wal0)))"
proof -
  have "NewReaderWithStart envStored wal0 (Some startBeyond) = Panic"
    by (simp add: NewReaderWithStart_def NewReader_def NewReaderWithMax_def wal0_def newWAL_def
        seg1_def segment_NewReader_def CurrentSegmentId_def SkipCurrentSegment_def
        startBeyond_def seekStart.simps)
  moreover have "Panic \<noteq> seekOutcome x" for x
    by (simp add: seekOutcome_def split: sum.split)
  ultimately show ?thesis by metis
qed

text \<open>
  Claim C10. With one segment of id 1 and a start position in segment 2, the loop skips
  the only segment reader and evaluates \<open>CurrentSegmentId\<close> with the index equal to the
  length of \<open>segmentReaders\<close>: the call panics, it returns neither a reader nor an error.
\<close>

theorem NewReaderWithStart_panics:
  "NewReaderWithStart env0 wal0
     (Some \<lparr>SegmentId = 2, BlockNumber = 0, ChunkOffset = 0, ChunkSize = 0\<rparr>) = Panic"
  by (simp add: NewReaderWithStart_def NewReader_def NewReaderWithMax_def wal0_def newWAL_def
      seg1_def env0_def segment_NewReader_def CurrentSegmentId_def SkipCurrentSegment_def
      seekStart.simps)

subsection \<open>Forced rotation and option checks\<close>

text \<open>
  Claim C7. \<open>OpenNewActiveSegment\<close> syncs, opens the segment \<open>id + 1\<close>, moves the old
  active segment to the map and installs the new one, but it leaves \<open>bytesWrite\<close> as it
  was: after a write of three bytes (\<open>bytesWrite = 10\<close>) it succeeds and leaves
  \<open>bytesWrite = 10\<close>, where \<open>rotateActiveSegment\<close> on the same state ends with
  \<open>bytesWrite = 0\<close>.
\<close>

theorem OpenNewActiveSegment_keeps_bytesWrite:
  "bytesWrite walCounted = 10 \<and>
   fst (OpenNewActiveSegment env0 walCounted) = None \<and>
   seg_id (activeSegment (snd (OpenNewActiveSegment env0 walCounted))) = 2 \<and>
   bytesWrite (snd (OpenNewActiveSegment env0 walCounted)) = 10 \<and>
   fst (rotateActiveSegment env0 walCounted) = None \<and>
   bytesWrite (snd (rotateActiveSegment env0 walCounted)) = 0"
proof -
  have full: "\<not> isFull wal0 (int (length [1, 2, 3 :: 8 word]))"
    by (simp add: isFull_def Size_def wal0_def newWAL_def opts0_def seg1_def
        maxDataWriteSize_def chunkHeaderSize_def blockSize_def)
  have w: "walCounted =
      wal0\<lparr>activeSegment := seg1\<lparr>currentBlockNumber := 0, currentBlockSize := 10\<rparr>,
           bytesWrite := 10, calls := [CallWrite 1]\<rparr>"
    using full
    by (simp add: walCounted_def Write_def appendActive_def syncAfterWrite_def
        segment_Write_def needSync_def logCall_def Let_def wal0_def newWAL_def opts0_def
        seg1_def env0_def chunkHeaderSize_def)
  show ?thesis
    by (simp only: w)
       (simp add: OpenNewActiveSegment_def rotateActiveSegment_def wal0_def newWAL_def
         env0_def seg1_def openSegmentFile_def logCall_def Let_def)
qed

text \<open>
  Claim C8. The check compares \<open>BlockCache\<close> with \<open>uint32(SegmentSize)\<close>, the low 32
  bits of the segment size: with \<open>SegmentSize = 4294967296\<close> (4 GiB, low bits 0) and
  \<open>BlockCache = 32768\<close> the options are refused although the extension starts with a dot
  and \<open>BlockCache \<le> SegmentSize\<close>.
\<close>

theorem checkOptions_large_segment:
  "BlockCache optsLarge = 32768 \<and> SegmentSize optsLarge = 4294967296 \<and>
   DiskFileExtension optsLarge = ''.seg'' \<and>
   checkOptions optsLarge = Some ErrBlockCacheTooLarge \<and>
   Open env0 optsLarge = Err ErrBlockCacheTooLarge"
  by (simp add: checkOptions_def optsLarge_def opts0_def Open_def)

end
